theory Spec2Isabelle
  imports Main "HOL-Library.AList"
begin

section \<open>Strings\<close>

text \<open>
  JavaScript strings are modelled as \<^typ>\<open>string\<close>. The character classes of the
  regular expressions in \<^verbatim>\<open>http-aware.js\<close> and the case mappings are modelled on
  ASCII; any other character is neither a letter, a digit nor white space and has no
  other case.
\<close>

definition lower_letters :: string where
  "lower_letters = ''abcdefghijklmnopqrstuvwxyz''"

definition upper_letters :: string where
  "upper_letters = ''ABCDEFGHIJKLMNOPQRSTUVWXYZ''"

definition digits :: string where
  "digits = ''0123456789''"

definition toLowerChar :: "char \<Rightarrow> char" where
  "toLowerChar c = (case map_of (zip upper_letters lower_letters) c of Some d \<Rightarrow> d | None \<Rightarrow> c)"

definition toUpperChar :: "char \<Rightarrow> char" where
  "toUpperChar c = (case map_of (zip lower_letters upper_letters) c of Some d \<Rightarrow> d | None \<Rightarrow> c)"

definition toLowerCase :: "string \<Rightarrow> string" where
  "toLowerCase s = map toLowerChar s"

definition toUpperCase :: "string \<Rightarrow> string" where
  "toUpperCase s = map toUpperChar s"

text \<open>\<^verbatim>\<open>[a-zA-Z]\<close>, \<^verbatim>\<open>[a-zA-Z_]\<close>, \<^verbatim>\<open>[a-zA-Z0-9_-]\<close>, \<^verbatim>\<open>\w\<close>, \<^verbatim>\<open>[a-zA-Z_-]\<close> and \<^verbatim>\<open>\s\<close>.\<close>

definition is_letter :: "char \<Rightarrow> bool" where
  "is_letter c = (c \<in> set lower_letters \<or> c \<in> set upper_letters)"

definition is_ident_start :: "char \<Rightarrow> bool" where
  "is_ident_start c = (is_letter c \<or> c = CHR ''_'')"

definition is_ident_char :: "char \<Rightarrow> bool" where
  "is_ident_char c = (is_letter c \<or> c \<in> set digits \<or> c = CHR ''_'' \<or> c = CHR ''-'')"

definition is_word_char :: "char \<Rightarrow> bool" where
  "is_word_char c = (is_letter c \<or> c \<in> set digits \<or> c = CHR ''_'')"

definition is_key_char :: "char \<Rightarrow> bool" where
  "is_key_char c = (is_letter c \<or> c = CHR ''_'' \<or> c = CHR ''-'')"

definition is_space :: "char \<Rightarrow> bool" where
  "is_space c = (c \<in> set [CHR '' '', CHR 0x09, CHR 0x0A, CHR 0x0B, CHR 0x0C, CHR 0x0D])"

text \<open>\<^verbatim>\<open>Array.prototype.join\<close> on an array of strings.\<close>

fun join :: "string \<Rightarrow> string list \<Rightarrow> string" where
  "join sep [] = []"
| "join sep [x] = x"
| "join sep (x # y # ys) = x @ sep @ join sep (y # ys)"

text \<open>
  \<^verbatim>\<open>s.replace(/pat/g, rep)\<close> for a pattern that is a fixed, non-empty string and a
  replacement without \<^verbatim>\<open>$\<close>: the matches are taken from left to right and do not
  overlap.
\<close>

function replace_all :: "string \<Rightarrow> string \<Rightarrow> string \<Rightarrow> string" where
  "replace_all pat rep s =
     (if s = [] \<or> pat = [] then s
      else if take (length pat) s = pat
        then rep @ replace_all pat rep (drop (length pat) s)
        else hd s # replace_all pat rep (tl s))"
  by pat_completeness auto
termination
  by (relation "measure (\<lambda>(pat, rep, s). length s)") auto

declare replace_all.simps [simp del]

text \<open>\<^verbatim>\<open>String.prototype.split(',')\<close> and \<^verbatim>\<open>String.prototype.trim\<close>.\<close>

fun split_comma :: "string \<Rightarrow> string list" where
  "split_comma [] = [[]]"
| "split_comma (c # cs) =
     (if c = CHR '','' then [] # split_comma cs
      else (case split_comma cs of [] \<Rightarrow> [[c]] | p # ps \<Rightarrow> (c # p) # ps))"

definition trim :: "string \<Rightarrow> string" where
  "trim s = rev (dropWhile is_space (rev (dropWhile is_space s)))"

section \<open>Field values and the value object of a header declaration\<close>

text \<open>
  An entry of a \<^verbatim>\<open>FormData\<close> is a name with a string or a \<^verbatim>\<open>File\<close>; of a file the
  model keeps the file name.
\<close>

datatype fvalue = Text string | File string

type_synonym entries = "(string \<times> fvalue) list"

text \<open>
  \<^verbatim>\<open>RequestHeader.values\<close> is a plain object made by \<^verbatim>\<open>Object.fromEntries\<close>: its own
  properties are the entries (the last entry of a name wins), and it inherits the
  properties of \<^verbatim>\<open>Object.prototype\<close>. The operator \<^verbatim>\<open>in\<close> and the property read
  \<^verbatim>\<open>values[name]\<close> see both.
\<close>

type_synonym valuemap = "string \<rightharpoonup> fvalue"

definition Object_fromEntries :: "entries \<Rightarrow> valuemap" where
  "Object_fromEntries es = foldl (\<lambda>m (k, v). m(k \<mapsto> v)) Map.empty es"

definition Object_prototype_properties :: "string list" where
  "Object_prototype_properties =
     [''constructor'', ''__defineGetter__'', ''__defineSetter__'', ''hasOwnProperty'',
      ''__lookupGetter__'', ''__lookupSetter__'', ''isPrototypeOf'',
      ''propertyIsEnumerable'', ''toString'', ''valueOf'', ''__proto__'',
      ''toLocaleString'']"

datatype jsvalue = Own fvalue | NativeFunction string | PrototypeObject

definition has_property :: "string \<Rightarrow> valuemap \<Rightarrow> bool" where
  "has_property name vals = (vals name \<noteq> None \<or> name \<in> set Object_prototype_properties)"

definition get_property :: "valuemap \<Rightarrow> string \<Rightarrow> jsvalue" where
  "get_property vals name =
     (case vals name of
        Some v \<Rightarrow> Own v
      | None \<Rightarrow>
          if name = ''constructor'' then NativeFunction ''Object''
          else if name = ''__proto__'' then PrototypeObject
          else NativeFunction name)"

text \<open>
  \<^verbatim>\<open>String(value)\<close>. A built-in function prints as its native source text, written
  here as V8 prints it.
\<close>

fun String :: "jsvalue \<Rightarrow> string" where
  "String (Own (Text s)) = s"
| "String (Own (File n)) = ''[object File]''"
| "String (NativeFunction n) = ''function '' @ n @ ''() { [native code] }''"
| "String PrototypeObject = ''[object Object]''"

section \<open>Formatting a value\<close>

text \<open>
  The registry \<^verbatim>\<open>HTTPAwareForm.formatters\<close> is a parameter of the model: for a key it
  gives the formatter stored under it, if there is one. A formatter takes the value and
  the trimmed arguments; the result \<open>None\<close> stands for \<^verbatim>\<open>null\<close> or \<^verbatim>\<open>undefined\<close>.
  The core ships an empty registry.
\<close>

type_synonym formatter = "jsvalue \<Rightarrow> string list \<Rightarrow> string option"

type_synonym formatters = "string \<Rightarrow> formatter option"

definition no_formatters :: formatters where
  "no_formatters = (\<lambda>key. None)"

text \<open>
  The match of \<^verbatim>\<open>/^(\w+)(?:\(([^)]*)\))?$/\<close>: the formatter name and, when the
  specification has parentheses, the text between them.
\<close>

definition match_formatSpec :: "string \<Rightarrow> (string \<times> string option) option" where
  "match_formatSpec spec =
     (let name = takeWhile is_word_char spec; rest = dropWhile is_word_char spec
      in if name = [] then None
         else if rest = [] then Some (name, None)
         else if hd rest = CHR ''('' \<and> tl rest \<noteq> [] \<and> last (tl rest) = CHR '')''
                 \<and> CHR '')'' \<notin> set (butlast (tl rest))
           then Some (name, Some (butlast (tl rest)))
           else None)"

text \<open>
  \<^verbatim>\<open>formatValue(value, formatSpec)\<close>. Without a specification, or when it does not
  match, the registry is read at the key \<^verbatim>\<open>undefined\<close>. The value comes from a
  property that exists, so it is never \<^verbatim>\<open>null\<close> or \<^verbatim>\<open>undefined\<close> and
  \<^verbatim>\<open>value ?? ''\<close> leaves it as it is.
\<close>

definition formatValue :: "formatters \<Rightarrow> jsvalue \<Rightarrow> string option \<Rightarrow> string" where
  "formatValue fm v formatSpec =
     (let m = (case formatSpec of None \<Rightarrow> None | Some spec \<Rightarrow> match_formatSpec spec);
          key = (case m of None \<Rightarrow> ''undefined'' | Some (name, _) \<Rightarrow> name);
          args = (case m of Some (_, Some a) \<Rightarrow> map trim (split_comma a) | _ \<Rightarrow> [])
      in case fm key of
           None \<Rightarrow> String v
         | Some f \<Rightarrow> (case f v args of None \<Rightarrow> String v | Some r \<Rightarrow> r))"

section \<open>Interpolation\<close>

text \<open>
  One attempt of \<^verbatim>\<open>/\{([a-zA-Z_][a-zA-Z0-9_-]*)(?:,([^}]+))?\}/\<close> at the head of a
  string: the name, the format specification and the text after the match. Both
  quantifiers are greedy and no shorter choice can succeed, so the match is unique.
\<close>

definition match_placeholder :: "string \<Rightarrow> (string \<times> string option \<times> string) option" where
  "match_placeholder s =
     (case s of
        [] \<Rightarrow> None
      | c # rest \<Rightarrow>
          if c \<noteq> CHR ''{'' then None
          else
            let name = takeWhile is_ident_char rest; after = dropWhile is_ident_char rest
            in if name = [] \<or> \<not> is_ident_start (hd name) then None
               else (case after of
                       [] \<Rightarrow> None
                     | d # r \<Rightarrow>
                         if d = CHR ''}'' then Some (name, None, r)
                         else if d = CHR '','' then
                           (let fmt = takeWhile (\<lambda>x. x \<noteq> CHR ''}'') r;
                                r' = dropWhile (\<lambda>x. x \<noteq> CHR ''}'') r
                            in if fmt = [] \<or> r' = [] then None
                               else Some (name, Some fmt, tl r'))
                         else None))"

text \<open>The text a match covers.\<close>

definition placeholder_text :: "string \<Rightarrow> string option \<Rightarrow> string" where
  "placeholder_text name fmt =
     ''{'' @ name @ (case fmt of None \<Rightarrow> [] | Some spec \<Rightarrow> '','' @ spec) @ ''}''"

lemma match_placeholder_shorter:
  assumes "match_placeholder s = Some (name, fmt, rest)"
  shows "length rest < length s"
proof (cases s)
  case Nil
  with assms show ?thesis by (simp add: match_placeholder_def)
next
  case (Cons c cs)
  have m: "match_placeholder (c # cs) = Some (name, fmt, rest)"
    using assms Cons by simp
  obtain d r where after: "dropWhile is_ident_char cs = d # r"
    using m by (auto simp: match_placeholder_def Let_def split: if_splits list.splits)
  have "length (dropWhile is_ident_char cs) \<le> length cs"
    by (rule length_dropWhile_le)
  with after have lr: "length r < length cs" by simp
  have "length (dropWhile (\<lambda>x. x \<noteq> CHR ''}'') r) \<le> length r"
    by (rule length_dropWhile_le)
  then have lt: "length (tl (dropWhile (\<lambda>x. x \<noteq> CHR ''}'') r)) \<le> length r"
    by simp
  have "rest = r \<or> rest = tl (dropWhile (\<lambda>x. x \<noteq> CHR ''}'') r)"
    using m after by (auto simp: match_placeholder_def Let_def split: if_splits)
  with lr lt Cons show ?thesis by auto
qed

text \<open>
  \<^verbatim>\<open>result.replace(/\{...\}/g, (match, name, fmt) => ...)\<close>: the string is scanned
  from left to right; where the expression matches, the callback's result replaces the
  match and the scan goes on after it.
\<close>

function substitute :: "formatters \<Rightarrow> valuemap \<Rightarrow> string \<Rightarrow> string" where
  "substitute fm vals [] = []"
| "substitute fm vals (c # cs) =
     (case match_placeholder (c # cs) of
        None \<Rightarrow> c # substitute fm vals cs
      | Some (name, fmt, rest) \<Rightarrow>
          (if has_property name vals then formatValue fm (get_property vals name) fmt
           else placeholder_text name fmt) @ substitute fm vals rest)"
  by pat_completeness auto
termination
  by (relation "measure (\<lambda>(fm, vals, s). length s)")
     (auto dest: match_placeholder_shorter)

definition escape_open :: string where
  "escape_open = [CHR 0x00, CHR ''O'', CHR 0x00]"

definition escape_close :: string where
  "escape_close = [CHR 0x00, CHR ''C'', CHR 0x00]"

definition interpolate :: "formatters \<Rightarrow> string \<Rightarrow> valuemap \<Rightarrow> string" where
  "interpolate fm template vals =
     (let result = replace_all ''}}'' escape_close (replace_all ''{{'' escape_open template);
          result = substitute fm vals result
      in replace_all escape_close ''}'' (replace_all escape_open ''{'' result))"

text \<open>The test of \<^verbatim>\<open>/^[a-zA-Z_-]+=\s*$/\<close>.\<close>

definition bare_assignment :: "string \<Rightarrow> bool" where
  "bare_assignment s =
     (let key = takeWhile is_key_char s; rest = dropWhile is_key_char s
      in key \<noteq> [] \<and> rest \<noteq> [] \<and> hd rest = CHR ''='' \<and> list_all is_space (tl rest))"

text \<open>A text without braces and without the character that marks a protected brace.\<close>

definition plain :: "string \<Rightarrow> bool" where
  "plain s = list_all (\<lambda>c. c \<noteq> CHR ''{'' \<and> c \<noteq> CHR ''}'' \<and> c \<noteq> CHR 0x00) s"

text \<open>A name as the placeholder expression reads it: \<^verbatim>\<open>[a-zA-Z_][a-zA-Z0-9_-]*\<close>.\<close>

definition is_identifier :: "string \<Rightarrow> bool" where
  "is_identifier name = (name \<noteq> [] \<and> is_ident_start (hd name) \<and> list_all is_ident_char name)"

section \<open>Templates as the specification words them\<close>

text \<open>
  A template is read as a sequence of plain text, doubled braces and placeholders
  \<^verbatim>\<open>{name}\<close> or \<^verbatim>\<open>{name,spec}\<close>. \<open>render\<close> writes such a sequence out, given the
  text of an opening and of a closing doubled brace and the text of a placeholder: the
  template itself has \<^verbatim>\<open>{{\<close>, \<^verbatim>\<open>}}\<close> and the placeholder as written; the expected output
  has single braces, and for a placeholder its formatted value when the name is a
  property of the value object and the placeholder as written otherwise.
\<close>

datatype segment = Lit string | EscOpen | EscClose | Hole string "string option"

fun render :: "string \<Rightarrow> string \<Rightarrow> (string \<Rightarrow> string option \<Rightarrow> string) \<Rightarrow> segment list \<Rightarrow> string" where
  "render a b h [] = []"
| "render a b h (Lit s # r) = s @ render a b h r"
| "render a b h (EscOpen # r) = a @ render a b h r"
| "render a b h (EscClose # r) = b @ render a b h r"
| "render a b h (Hole n f # r) = h n f @ render a b h r"

definition template_text :: "segment list \<Rightarrow> string" where
  "template_text segs = render ''{{'' ''}}'' placeholder_text segs"

definition replacement :: "formatters \<Rightarrow> valuemap \<Rightarrow> string \<Rightarrow> string option \<Rightarrow> string" where
  "replacement fm vals name fmt =
     (if has_property name vals then formatValue fm (get_property vals name) fmt
      else placeholder_text name fmt)"

definition output_text :: "formatters \<Rightarrow> valuemap \<Rightarrow> segment list \<Rightarrow> string" where
  "output_text fm vals segs = render ''{'' ''}'' (replacement fm vals) segs"

text \<open>
  The sequences the result is stated for. Plain text and format specifications have no
  brace and no NUL; a name is an identifier; no replacement text has a NUL; no
  placeholder is directly followed by a closing brace; and what follows a closing
  doubled brace does not come out as a capital O and a brace (the code marks a protected
  brace by a letter between two NULs, and reads such an O as the mark of an opening one).
\<close>

definition starts_with :: "string \<Rightarrow> string \<Rightarrow> bool" where
  "starts_with p s = (take (length p) s = p)"

definition spec_ok :: "string option \<Rightarrow> bool" where
  "spec_ok fmt = (case fmt of None \<Rightarrow> True | Some spec \<Rightarrow> spec \<noteq> [] \<and> plain spec)"

fun well_formed :: "formatters \<Rightarrow> valuemap \<Rightarrow> segment list \<Rightarrow> bool" where
  "well_formed fm vals [] = True"
| "well_formed fm vals (Lit s # r) = (plain s \<and> well_formed fm vals r)"
| "well_formed fm vals (EscOpen # r) = well_formed fm vals r"
| "well_formed fm vals (EscClose # r) =
     (\<not> starts_with ''O{'' (output_text fm vals r)
      \<and> \<not> starts_with ''O}'' (output_text fm vals r)
      \<and> well_formed fm vals r)"
| "well_formed fm vals (Hole name fmt # r) =
     (is_identifier name
      \<and> spec_ok fmt
      \<and> CHR 0x00 \<notin> set (replacement fm vals name fmt)
      \<and> \<not> starts_with ''}'' (template_text r)
      \<and> well_formed fm vals r)"

section \<open>The form and its header declarations\<close>

text \<open>
  The document is the host's. The model keeps what \<^verbatim>\<open>http-aware.js\<close> reads of it:
  of a listed element (\<^verbatim>\<open>form.elements\<close>) its \<^verbatim>\<open>name\<close>, its \<^verbatim>\<open>for\<close> attribute and
  the \<^verbatim>\<open>request-header\<close> fieldsets that contain it (\<^verbatim>\<open>this.contains(el)\<close>, which holds
  of the fieldset itself too); of a \<^verbatim>\<open>request-header\<close> fieldset its node, its \<^verbatim>\<open>id\<close>
  and its \<^verbatim>\<open>header\<close> and \<^verbatim>\<open>value\<close> attributes.
\<close>

record element =
  el_name :: string
  el_for :: "string option"
  el_within :: "nat list"

record request_header =
  rh_node :: nat
  rh_id :: string
  rh_header_attr :: "string option"
  rh_value_attr :: "string option"

text \<open>The control that triggered the submission, with its \<^verbatim>\<open>form*\<close> properties.\<close>

record submitter =
  formMethod :: string
  has_formaction :: bool
  formAction :: string
  formEnctype :: string
  formNoValidate :: bool
  formTarget :: string

text \<open>
  The request. The URL is kept as the arguments of \<^verbatim>\<open>new URL(input, base)\<close> with its
  search component: either the one the host parsed from the input, or the
  \<^verbatim>\<open>URLSearchParams\<close> that \<^verbatim>\<open>buildRequest\<close> assigned to \<^verbatim>\<open>url.search\<close>.
\<close>

datatype search = ActionSearch | SearchParams "(string \<times> string) list"

record url =
  url_input :: string
  url_base :: string
  url_search :: search

datatype body = TextBody string | UrlencodedBody "(string \<times> string) list" | FormDataBody entries

record request =
  req_method :: string
  req_url :: url
  req_headers :: "(string \<times> string) list"
  req_body :: "body option"
  req_redirect :: string

text \<open>
  The form: its attributes and properties, its listed elements, its
  \<^verbatim>\<open>request-header\<close> fieldsets in document order
  (\<^verbatim>\<open>querySelectorAll('fieldset[is="request-header"]')\<close>, each with this form as its
  form owner), the entry list \<^verbatim>\<open>new FormData(this, submitter)\<close> gives for a submitter,
  and the two fields the class adds.
\<close>

record form =
  method_attr :: "string option"
  action :: string
  enctype :: string
  noValidate :: bool
  target :: string
  elements :: "element list"
  request_headers :: "request_header list"
  formData :: "submitter option \<Rightarrow> entries"
  submitter_slot :: "submitter option"
  preparedRequest :: "request option"

definition COMBINABLE_HEADERS :: "string list" where
  "COMBINABLE_HEADERS =
     [''accept'', ''accept-charset'', ''accept-encoding'', ''accept-language'',
      ''cache-control'', ''connection'', ''content-encoding'', ''expect'',
      ''if-match'', ''if-none-match'', ''prefer'', ''te'', ''trailer'',
      ''transfer-encoding'', ''upgrade'', ''via'', ''warning'', ''link'']"

subsection \<open>RequestHeader\<close>

definition header :: "request_header \<Rightarrow> string" where
  "header el = (case rh_header_attr el of None \<Rightarrow> [] | Some h \<Rightarrow> h)"

definition header_name :: "request_header \<Rightarrow> string" where
  "header_name el = toLowerCase (header el)"

definition template :: "request_header \<Rightarrow> string" where
  "template el = (case rh_value_attr el of None \<Rightarrow> [] | Some t \<Rightarrow> t)"

definition inputs :: "form \<Rightarrow> request_header \<Rightarrow> element list" where
  "inputs f el =
     filter (\<lambda>e. el_for e = Some (rh_id el) \<or> rh_node el \<in> set (el_within e)) (elements f)"

definition values_of :: "form \<Rightarrow> request_header \<Rightarrow> valuemap" where
  "values_of f el =
     (let names = set (map el_name (inputs f el))
      in Object_fromEntries (filter (\<lambda>(k, v). k \<in> names) (formData f (submitter_slot f))))"

definition computeValue :: "formatters \<Rightarrow> form \<Rightarrow> request_header \<Rightarrow> string" where
  "computeValue fm f el =
     (let result = interpolate fm (template el) (values_of f el)
      in if result \<noteq> [] \<and> \<not> bare_assignment result then result else [])"

subsection \<open>HTTPAwareForm\<close>

text \<open>
  A \<^verbatim>\<open>Set\<close> built from an array keeps the first occurrence of each member, in order;
  a \<^verbatim>\<open>Map\<close> keeps its keys in the order of their first \<^verbatim>\<open>set\<close>, and is modelled as
  an association list with \<^const>\<open>AList.update\<close>. The segments of a header are strings,
  so the filter \<^verbatim>\<open>x || x === 0\<close> of \<^verbatim>\<open>collectHeaders\<close> keeps the non-empty ones.
\<close>

fun Set_new :: "'a list \<Rightarrow> 'a list" where
  "Set_new [] = []"
| "Set_new (x # xs) = x # filter (\<lambda>y. y \<noteq> x) (Set_new xs)"

definition getHeaderBoundFields :: "form \<Rightarrow> string list" where
  "getHeaderBoundFields f =
     Set_new (concat (map (\<lambda>el. concat (map (\<lambda>i. if el_name i \<noteq> [] then [el_name i] else [])
                                              (inputs f el)))
                          (request_headers f)))"

definition collect_step ::
  "formatters \<Rightarrow> form \<Rightarrow> (string \<times> string list) list \<Rightarrow> request_header
     \<Rightarrow> (string \<times> string list) list" where
  "collect_step fm f headerMap el =
     (let h = header_name el
      in if h = [] then headerMap
         else AList.update h
                ((if h \<in> set COMBINABLE_HEADERS
                  then (case map_of headerMap h of Some v \<Rightarrow> v | None \<Rightarrow> [])
                  else []) @ [computeValue fm f el])
                headerMap)"

definition collectHeaders :: "formatters \<Rightarrow> form \<Rightarrow> (string \<times> string) list" where
  "collectHeaders fm f =
     map (\<lambda>(n, v). (n, join '', '' (filter (\<lambda>x. x \<noteq> []) v)))
         (foldl (collect_step fm f) [] (request_headers f))"

definition FormData_delete :: "string \<Rightarrow> entries \<Rightarrow> entries" where
  "FormData_delete name fd = filter (\<lambda>(k, v). k \<noteq> name) fd"

definition collectFormData :: "form \<Rightarrow> entries" where
  "collectFormData f =
     foldl (\<lambda>fd name. FormData_delete name fd) (formData f (submitter_slot f))
           (getHeaderBoundFields f)"

fun is_File :: "fvalue \<Rightarrow> bool" where
  "is_File (File n) = True"
| "is_File (Text s) = False"

definition encodeBody :: "entries \<Rightarrow> string \<Rightarrow> body" where
  "encodeBody fd enc =
     (if enc = ''text/plain''
        then TextBody (join [CHR 0x0D, CHR 0x0A] (map (\<lambda>(k, v). k @ ''='' @ String (Own v)) fd))
      else if enc = ''application/x-www-form-urlencoded''
        then UrlencodedBody (map (\<lambda>(k, v). (k, String (Own v)))
                                 (filter (\<lambda>(k, v). \<not> is_File v) fd))
      else FormDataBody fd)"

text \<open>\<^verbatim>\<open>a || b\<close> on strings; an absent operand is written as the empty string.\<close>

definition or_else :: "string \<Rightarrow> string \<Rightarrow> string" where
  "or_else a b = (if a \<noteq> [] then a else b)"

record host =
  location_href :: string
  location_origin :: string
  checkValidity :: "form \<Rightarrow> bool"
  dispatchEvent :: "form \<Rightarrow> bool"

definition effective_method :: "form \<Rightarrow> string" where
  "effective_method f =
     toUpperCase
       (or_else (case submitter_slot f of None \<Rightarrow> [] | Some s \<Rightarrow> formMethod s)
          (or_else (case method_attr f of None \<Rightarrow> [] | Some m \<Rightarrow> m) ''GET''))"

definition effective_enctype :: "form \<Rightarrow> string" where
  "effective_enctype f =
     or_else (case submitter_slot f of None \<Rightarrow> [] | Some s \<Rightarrow> formEnctype s)
       (or_else (enctype f) ''application/x-www-form-urlencoded'')"

definition query_value :: "fvalue \<Rightarrow> string" where
  "query_value v = (case v of File n \<Rightarrow> n | Text s \<Rightarrow> s)"

definition buildRequest :: "formatters \<Rightarrow> host \<Rightarrow> form \<Rightarrow> request" where
  "buildRequest fm h f =
     (let m = effective_method f;
          headers = collectHeaders fm f;
          fd = collectFormData f;
          u = \<lparr>url_input =
                 or_else (case submitter_slot f of
                            None \<Rightarrow> []
                          | Some s \<Rightarrow> if has_formaction s then formAction s else [])
                   (or_else (action f) (location_href h)),
               url_base = location_origin h,
               url_search = ActionSearch\<rparr>
      in if m \<in> set [''GET'', ''HEAD'', ''DELETE'']
         then \<lparr>req_method = m,
               req_url = u\<lparr>url_search := SearchParams (map (\<lambda>(k, v). (k, query_value v)) fd)\<rparr>,
               req_headers = headers, req_body = None, req_redirect = ''follow''\<rparr>
         else \<lparr>req_method = m, req_url = u, req_headers = headers,
               req_body = Some (encodeBody fd (effective_enctype f)),
               req_redirect = ''follow''\<rparr>)"

subsection \<open>Submission\<close>

text \<open>
  What a submission does to the outside, in order: \<^verbatim>\<open>reportValidity()\<close>, the dispatch
  of the \<^verbatim>\<open>submit\<close> event (with the \<^verbatim>\<open>preparedRequest\<close> its listeners can read) and
  \<^verbatim>\<open>fetch(request)\<close> (with the target the response is shown in). The host answers
  \<^verbatim>\<open>checkValidity()\<close> and \<^verbatim>\<open>dispatchEvent(event)\<close>, which is false exactly when a
  listener cancelled the event; listeners read the form, and neither assign to it nor
  submit it again. In \<^verbatim>\<open>submit\<close> and \<^verbatim>\<open>requestSubmit\<close> the constructors
  \<^verbatim>\<open>new URL\<close> and \<^verbatim>\<open>new Request\<close> are taken to accept their arguments.
\<close>

datatype effect =
  ReportValidity
| SubmitEvent "submitter option" "request option"
| Fetch request string

definition submit :: "formatters \<Rightarrow> host \<Rightarrow> form \<Rightarrow> form \<times> effect list" where
  "submit fm h f =
     (let request = buildRequest fm h f;
          tgt = or_else (target f) ''_self''
      in (f, [Fetch request tgt]))"

definition shouldValidate :: "form \<Rightarrow> submitter option \<Rightarrow> bool" where
  "shouldValidate f sub =
     (\<not> (noValidate f \<or> (case sub of None \<Rightarrow> False | Some s \<Rightarrow> formNoValidate s)))"

definition requestSubmit ::
  "formatters \<Rightarrow> host \<Rightarrow> form \<Rightarrow> submitter option \<Rightarrow> form \<times> effect list" where
  "requestSubmit fm h f sub =
     (let f1 = f\<lparr>submitter_slot := sub\<rparr>
      in if shouldValidate f1 sub \<and> \<not> checkValidity h f1 then (f1, [ReportValidity])
         else
           let request = buildRequest fm h f1;
               f2 = f1\<lparr>preparedRequest := Some request\<rparr>;
               tgt = or_else (case sub of None \<Rightarrow> [] | Some s \<Rightarrow> formTarget s)
                       (or_else (target f2) ''_self'');
               event = SubmitEvent sub (preparedRequest f2)
           in if dispatchEvent h f2
              then (f2\<lparr>preparedRequest := None\<rparr>, [event, Fetch request tgt])
              else (f2\<lparr>preparedRequest := None\<rparr>, [event]))"

text \<open>
  The states a form can be in between two calls: it is constructed with
  \<^verbatim>\<open>preparedRequest = null\<close> and no submitter; \<^verbatim>\<open>requestSubmit\<close> and \<^verbatim>\<open>submit\<close> are
  called on it, with any submitter and any answers of the host; and the page edits its
  attributes, its elements and its fields.
\<close>

inductive reachable :: "formatters \<Rightarrow> form \<Rightarrow> bool" for fm :: formatters where
  constructed: "preparedRequest f = None \<Longrightarrow> submitter_slot f = None \<Longrightarrow> reachable fm f"
| after_requestSubmit: "reachable fm f \<Longrightarrow> reachable fm (fst (requestSubmit fm h f sub))"
| after_submit: "reachable fm f \<Longrightarrow> reachable fm (fst (submit fm h f))"
| edited: "reachable fm f \<Longrightarrow>
     reachable fm (f\<lparr>method_attr := m, action := a, enctype := en, noValidate := nv,
                       target := t, elements := es, request_headers := rs, formData := fd\<rparr>)"

subsection \<open>The host's constructors\<close>











section \<open>The routing as the specification words it\<close>

text \<open>
  A field is header-bound when a listed element of that name, not empty, is contained in
  a \<^verbatim>\<open>request-header\<close> fieldset of the form or links to its \<^verbatim>\<open>id\<close> by \<^verbatim>\<open>for=\<close>. The free
  fields are the entries of the snapshot whose name is not header-bound. The text pairs
  of an entry list are its string-valued entries, the file-valued ones dropped.
\<close>

definition free_fields :: "form \<Rightarrow> entries" where
  "free_fields f =
     filter (\<lambda>(k, v). \<not> (\<exists>el \<in> set (request_headers f). \<exists>e \<in> set (elements f).
                          (el_for e = Some (rh_id el) \<or> rh_node el \<in> set (el_within e))
                          \<and> el_name e = k \<and> k \<noteq> []))
            (formData f (submitter_slot f))"

definition text_pairs :: "entries \<Rightarrow> (string \<times> string) list" where
  "text_pairs es = List.map_filter (\<lambda>(k, v). case v of Text s \<Rightarrow> Some (k, s) | File n \<Rightarrow> None) es"

section \<open>Example forms\<close>

text \<open>
  A form with two \<^verbatim>\<open>Prefer\<close> declarations (one bound by \<^verbatim>\<open>for=\<close>, one by
  containment), two declarations of a header outside the combinable set, and two free
  fields, one of them a file.
\<close>

definition demo_view :: request_header where
  "demo_view = \<lparr>rh_node = 1, rh_id = ''view-pref'', rh_header_attr = Some ''Prefer'',
                 rh_value_attr = Some ''view={view}''\<rparr>"

definition demo_wait :: request_header where
  "demo_wait = \<lparr>rh_node = 2, rh_id = [], rh_header_attr = Some ''prefer'',
                 rh_value_attr = Some ''wait={timeout}''\<rparr>"

definition demo_first :: request_header where
  "demo_first = \<lparr>rh_node = 3, rh_id = [], rh_header_attr = Some ''X-Order'',
                  rh_value_attr = Some ''by={first}''\<rparr>"

definition demo_second :: request_header where
  "demo_second = \<lparr>rh_node = 4, rh_id = [], rh_header_attr = Some ''X-Order'',
                   rh_value_attr = Some ''by={second}''\<rparr>"

definition demo_form :: form where
  "demo_form =
     \<lparr>method_attr = Some ''get'', action = ''/items'',
      enctype = ''application/x-www-form-urlencoded'', noValidate = False, target = [],
      elements =
        [\<lparr>el_name = ''view'', el_for = Some ''view-pref'', el_within = []\<rparr>,
         \<lparr>el_name = ''timeout'', el_for = None, el_within = [2]\<rparr>,
         \<lparr>el_name = ''first'', el_for = None, el_within = [3]\<rparr>,
         \<lparr>el_name = ''second'', el_for = None, el_within = [4]\<rparr>,
         \<lparr>el_name = ''q'', el_for = None, el_within = []\<rparr>,
         \<lparr>el_name = ''doc'', el_for = None, el_within = []\<rparr>],
      request_headers = [demo_view, demo_wait, demo_first, demo_second],
      formData = (\<lambda>s. [(''view'', Text ''list''), (''timeout'', Text ''30''),
                        (''first'', Text ''aaa''), (''second'', Text []),
                        (''q'', Text ''x''), (''doc'', File ''a.pdf'')]),
      submitter_slot = None, preparedRequest = None\<rparr>"

text \<open>The same form with every bound field left empty.\<close>

definition demo_blank_form :: form where
  "demo_blank_form =
     demo_form\<lparr>formData := (\<lambda>s. [(''view'', Text []), (''timeout'', Text []),
                                   (''first'', Text []), (''second'', Text [])])\<rparr>"

text \<open>A host, and the form with other methods.\<close>

definition demo_host :: host where
  "demo_host = \<lparr>location_href = ''https://example.org/list'',
                 location_origin = ''https://example.org'',
                 checkValidity = (\<lambda>f. True), dispatchEvent = (\<lambda>f. True)\<rparr>"

definition demo_post_form :: form where
  "demo_post_form = demo_form\<lparr>method_attr := Some ''post''\<rparr>"


text \<open>
  A host whose constraint check fails, a host whose listeners cancel the event, and a
  submit button.
\<close>

definition demo_invalid_host :: host where
  "demo_invalid_host = demo_host\<lparr>checkValidity := (\<lambda>f. False)\<rparr>"

definition demo_cancel_host :: host where
  "demo_cancel_host = demo_host\<lparr>dispatchEvent := (\<lambda>f. False)\<rparr>"

definition demo_button :: submitter where
  "demo_button = \<lparr>formMethod = [], has_formaction = False, formAction = [], formEnctype = [],
                   formNoValidate = False, formTarget = ''_blank''\<rparr>"

text \<open>A template with an escaped name and a live placeholder of the same name.\<close>

definition demo_segments :: "segment list" where
  "demo_segments = [EscOpen, Lit ''x'', EscClose, Lit ''='', Hole ''x'' None]"



section \<open>Header aggregation\<close>

lemma Set_new_set: "set (Set_new xs) = set xs"
  by (induction xs) auto

lemma Set_new_distinct: "distinct (Set_new xs)"
  by (induction xs) (auto simp: Set_new_set)

lemma collect_step_keys:
  "map fst (collect_step fm f m d) =
     (if header_name d = [] \<or> header_name d \<in> set (map fst m) then map fst m
      else map fst m @ [header_name d])"
  by (simp add: collect_step_def Let_def update_keys)

lemma foldl_collect_keys:
  "map fst (foldl (collect_step fm f) m ds) =
     map fst m @ filter (\<lambda>n. n \<notin> set (map fst m))
                   (Set_new (filter (\<lambda>n. n \<noteq> []) (map header_name ds)))"
proof (induction ds arbitrary: m)
  case Nil
  show ?case by simp
next
  case (Cons d ds)
  let ?S = "Set_new (filter (\<lambda>n. n \<noteq> []) (map header_name ds))"
  let ?h = "header_name d"
  show ?case
  proof (cases "?h = []")
    case True
    then show ?thesis using Cons.IH [of m] by (simp add: collect_step_def)
  next
    case False
    note ne = this
    show ?thesis
    proof (cases "?h \<in> set (map fst m)")
      case True
      have "filter (\<lambda>n. n \<notin> set (map fst m)) (filter (\<lambda>y. y \<noteq> ?h) ?S)
            = filter (\<lambda>n. n \<notin> set (map fst m)) ?S"
        unfolding filter_filter using True by (intro filter_cong) auto
      with True ne show ?thesis
        using Cons.IH [of "collect_step fm f m d"] by (simp add: collect_step_keys)
    next
      case False
      have "filter (\<lambda>n. n \<notin> set (map fst m @ [?h])) ?S
            = filter (\<lambda>n. n \<notin> set (map fst m)) (filter (\<lambda>y. y \<noteq> ?h) ?S)"
        unfolding filter_filter by (intro filter_cong) auto
      with False ne show ?thesis
        using Cons.IH [of "collect_step fm f m d"] by (simp add: collect_step_keys)
    qed
  qed
qed


lemma foldl_collect_combinable:
  assumes "h \<noteq> []" and "h \<in> set COMBINABLE_HEADERS"
  shows "map_of (foldl (collect_step fm f) [] ds) h =
     (if filter (\<lambda>d. header_name d = h) ds = [] then None
      else Some (map (computeValue fm f) (filter (\<lambda>d. header_name d = h) ds)))"
proof (induction ds rule: rev_induct)
  case Nil
  show ?case by simp
next
  case (snoc d ds)
  with assms show ?case
    by (cases "header_name d = h") (simp_all add: collect_step_def Let_def update_conv')
qed

lemma foldl_collect_replace:
  assumes "h \<noteq> []" and "h \<notin> set COMBINABLE_HEADERS"
  shows "map_of (foldl (collect_step fm f) [] ds) h =
     (if filter (\<lambda>d. header_name d = h) ds = [] then None
      else Some [computeValue fm f (last (filter (\<lambda>d. header_name d = h) ds))])"
proof (induction ds rule: rev_induct)
  case Nil
  show ?case by simp
next
  case (snoc d ds)
  with assms show ?case
    by (cases "header_name d = h") (simp_all add: collect_step_def Let_def update_conv')
qed

lemma single_entry:
  "distinct (map fst xs) \<Longrightarrow> map_of xs k = Some v \<Longrightarrow> filter (\<lambda>(n, w). n = k) xs = [(k, v)]"
proof (induction xs)
  case Nil
  then show ?case by simp
next
  case (Cons p ps)
  obtain n w where p: "p = (n, w)" by (cases p)
  show ?case
  proof (cases "n = k")
    case True
    with Cons.prems p have "k \<notin> fst ` set ps" and "w = v" by auto
    then have "filter (\<lambda>(n, w). n = k) ps = []"
      by (force simp: filter_empty_conv)
    with True p \<open>w = v\<close> show ?thesis by simp
  next
    case False
    with Cons p show ?thesis by simp
  qed
qed

lemma collectHeaders_keys:
  "map fst (collectHeaders fm f) =
     Set_new (filter (\<lambda>n. n \<noteq> []) (map header_name (request_headers f)))"
proof -
  have "map fst (collectHeaders fm f) = map fst (foldl (collect_step fm f) [] (request_headers f))"
    by (simp add: collectHeaders_def case_prod_unfold comp_def)
  then show ?thesis by (simp add: foldl_collect_keys)
qed

lemma collectHeaders_lookup:
  "map_of (collectHeaders fm f) h =
     map_option (\<lambda>v. join '', '' (filter (\<lambda>x. x \<noteq> []) v))
       (map_of (foldl (collect_step fm f) [] (request_headers f)) h)"
  by (simp add: collectHeaders_def map_of_map)

text \<open>
  Claim C1. Two declarations of one header name \<open>h\<close> (lower-cased, not empty), the
  second one being the last declaration of \<open>h\<close>. If \<open>h\<close> is in the combinable set, no
  other declaration names \<open>h\<close> and both computed values are non-empty, the output has
  exactly one entry for \<open>h\<close>, and its value is the first value, a comma and a space, and
  the second value. If \<open>h\<close> is not in the combinable set, the output has exactly one
  entry for \<open>h\<close>, and its value is the value of the later declaration alone, also when
  that value is empty.
\<close>

theorem collectHeaders_merge:
  assumes "request_headers f = xs @ d1 # ys @ d2 # zs"
    and "header_name d1 = h" and "header_name d2 = h" and "h \<noteq> []"
    and "\<forall>d \<in> set zs. header_name d \<noteq> h"
  shows "(h \<in> set COMBINABLE_HEADERS \<and> (\<forall>d \<in> set (xs @ ys). header_name d \<noteq> h)
            \<and> computeValue fm f d1 \<noteq> [] \<and> computeValue fm f d2 \<noteq> []
          \<longrightarrow> filter (\<lambda>(n, v). n = h) (collectHeaders fm f)
                = [(h, computeValue fm f d1 @ '', '' @ computeValue fm f d2)])
       \<and> (h \<notin> set COMBINABLE_HEADERS
          \<longrightarrow> filter (\<lambda>(n, v). n = h) (collectHeaders fm f) = [(h, computeValue fm f d2)])"
proof -
  let ?own = "filter (\<lambda>d. header_name d = h) (request_headers f)"
  have dist: "distinct (map fst (collectHeaders fm f))"
    by (simp add: collectHeaders_keys Set_new_distinct)
  have zs: "filter (\<lambda>d. header_name d = h) zs = []"
    using assms(5) by (auto simp: filter_empty_conv)
  have last_own: "?own \<noteq> [] \<and> last ?own = d2"
    using assms(1,3) zs by simp
  have comb: "filter (\<lambda>(n, v). n = h) (collectHeaders fm f)
                = [(h, computeValue fm f d1 @ '', '' @ computeValue fm f d2)]"
    if c: "h \<in> set COMBINABLE_HEADERS" and o: "\<forall>d \<in> set (xs @ ys). header_name d \<noteq> h"
      and a: "computeValue fm f d1 \<noteq> []" and b: "computeValue fm f d2 \<noteq> []"
  proof -
    have "filter (\<lambda>d. header_name d = h) xs = []" "filter (\<lambda>d. header_name d = h) ys = []"
      using o by (auto simp: filter_empty_conv)
    then have "?own = [d1, d2]"
      using assms(1,2,3) zs by simp
    then have "map_of (collectHeaders fm f) h
                 = Some (computeValue fm f d1 @ '', '' @ computeValue fm f d2)"
      using a b by (simp add: collectHeaders_lookup foldl_collect_combinable [OF assms(4) c])
    with dist show ?thesis by (rule single_entry)
  qed
  have repl: "filter (\<lambda>(n, v). n = h) (collectHeaders fm f) = [(h, computeValue fm f d2)]"
    if c: "h \<notin> set COMBINABLE_HEADERS"
  proof -
    have "map_of (collectHeaders fm f) h = Some (computeValue fm f d2)"
      using last_own
      by (simp add: collectHeaders_lookup foldl_collect_replace [OF assms(4) c])
    with dist show ?thesis by (rule single_entry)
  qed
  from comb repl show ?thesis by blast
qed

theorem collectHeaders_merge_witness:
  "filter (\<lambda>(n, v). n = ''prefer'') (collectHeaders no_formatters demo_form)
     = [(''prefer'', ''view=list, wait=30'')]
   \<and> filter (\<lambda>(n, v). n = ''x-order'') (collectHeaders no_formatters demo_form)
     = [(''x-order'', [])]"
proof -
  have rh: "request_headers demo_form = [] @ demo_view # [] @ demo_wait # [demo_first, demo_second]"
    "request_headers demo_form = [demo_view, demo_wait] @ demo_first # [] @ demo_second # []"
    by (simp_all add: demo_form_def)
  have names: "header_name demo_view = ''prefer''" "header_name demo_wait = ''prefer''"
    "header_name demo_first = ''x-order''" "header_name demo_second = ''x-order''"
    by code_simp+
  have vals: "computeValue no_formatters demo_form demo_view = ''view=list''"
    "computeValue no_formatters demo_form demo_wait = ''wait=30''"
    "computeValue no_formatters demo_form demo_second = []"
    by code_simp+
  have comb: "''prefer'' \<in> set COMBINABLE_HEADERS" "''x-order'' \<notin> set COMBINABLE_HEADERS"
    by (simp_all add: COMBINABLE_HEADERS_def)
  have a: "filter (\<lambda>(n, v). n = ''prefer'') (collectHeaders no_formatters demo_form)
     = [(''prefer'', ''view=list, wait=30'')]"
    using collectHeaders_merge [OF rh(1) names(1) names(2), of no_formatters] comb names vals
    by simp
  have b: "filter (\<lambda>(n, v). n = ''x-order'') (collectHeaders no_formatters demo_form)
     = [(''x-order'', [])]"
    using collectHeaders_merge [OF rh(2) names(3) names(4), of no_formatters] comb names vals
    by simp
  from a b show ?thesis by simp
qed

lemma join_no_segments: "join sep (filter (\<lambda>x. x \<noteq> []) (map g ds)) = []"
  if "\<forall>d \<in> set ds. g d = []"
proof -
  from that have "filter (\<lambda>x. x \<noteq> []) (map g ds) = []"
    by (simp add: filter_empty_conv)
  then show ?thesis by simp
qed

lemma collectHeaders_all_empty:
  assumes "h \<noteq> []" and "h \<in> set (map header_name (request_headers f))"
    and "\<forall>d \<in> set (request_headers f). header_name d = h \<longrightarrow> computeValue fm f d = []"
  shows "map_of (collectHeaders fm f) h = Some []"
proof -
  let ?own = "filter (\<lambda>d. header_name d = h) (request_headers f)"
  from assms(2) have ne: "?own \<noteq> []"
    by (auto simp: filter_empty_conv)
  have empty: "\<forall>d \<in> set ?own. computeValue fm f d = []"
    using assms(3) by simp
  show ?thesis
  proof (cases "h \<in> set COMBINABLE_HEADERS")
    case True
    show ?thesis
      using ne join_no_segments [OF empty, of "'', ''"]
      by (simp add: collectHeaders_lookup foldl_collect_combinable [OF assms(1) True])
  next
    case False
    from ne have "last ?own \<in> set ?own" by (rule last_in_set)
    with empty have "computeValue fm f (last ?own) = []" by blast
    with ne show ?thesis
      by (simp add: collectHeaders_lookup foldl_collect_replace [OF assms(1) False])
  qed
qed

text \<open>
  Claim C5. The names of the entries of \<^const>\<open>collectHeaders\<close> are the non-empty
  lower-cased header names of the declarations, each once, in the order of their first
  declaration; and a name all of whose declarations compute the empty string still has
  its entry, with the empty string as value.
\<close>

theorem collectHeaders_one_entry_per_name:
  "map fst (collectHeaders fm f)
     = Set_new (filter (\<lambda>n. n \<noteq> []) (map header_name (request_headers f)))
   \<and> distinct (map fst (collectHeaders fm f))
   \<and> set (map fst (collectHeaders fm f))
       = {h \<in> set (map header_name (request_headers f)). h \<noteq> []}
   \<and> (\<forall>h. h \<noteq> [] \<and> h \<in> set (map header_name (request_headers f))
            \<and> (\<forall>d \<in> set (request_headers f). header_name d = h \<longrightarrow> computeValue fm f d = [])
          \<longrightarrow> map_of (collectHeaders fm f) h = Some [])"
proof -
  have keys: "map fst (collectHeaders fm f)
     = Set_new (filter (\<lambda>n. n \<noteq> []) (map header_name (request_headers f)))"
    by (rule collectHeaders_keys)
  have dist: "distinct (map fst (collectHeaders fm f))"
    unfolding keys by (rule Set_new_distinct)
  have names: "set (map fst (collectHeaders fm f))
       = {h \<in> set (map header_name (request_headers f)). h \<noteq> []}"
    unfolding keys Set_new_set by auto
  from keys dist names collectHeaders_all_empty [of _ f fm] show ?thesis
    by blast
qed

theorem collectHeaders_one_entry_per_name_witness:
  "map fst (collectHeaders no_formatters demo_blank_form) = [''prefer'', ''x-order'']
   \<and> map_of (collectHeaders no_formatters demo_blank_form) ''prefer'' = Some []"
proof -
  have names: "map header_name (request_headers demo_blank_form)
                 = [''prefer'', ''prefer'', ''x-order'', ''x-order'']"
    by code_simp
  have rh: "request_headers demo_blank_form = [demo_view, demo_wait, demo_first, demo_second]"
    by (simp add: demo_blank_form_def demo_form_def)
  have hn: "header_name demo_first = ''x-order''" "header_name demo_second = ''x-order''"
    by code_simp+
  have vals: "computeValue no_formatters demo_blank_form demo_view = []"
    "computeValue no_formatters demo_blank_form demo_wait = []"
    by code_simp+
  have hyp: "\<forall>d \<in> set (request_headers demo_blank_form).
               header_name d = ''prefer'' \<longrightarrow> computeValue no_formatters demo_blank_form d = []"
    using vals hn by (simp add: rh)
  from collectHeaders_one_entry_per_name [of no_formatters demo_blank_form] names hyp
  show ?thesis by simp
qed

section \<open>Replacement and substitution on plain text\<close>

lemma replace_all_Nil: "replace_all pat rep [] = []"
  by (simp add: replace_all.simps)

lemma replace_all_hit:
  "pat \<noteq> [] \<Longrightarrow> replace_all pat rep (pat @ xs) = rep @ replace_all pat rep xs"
  by (subst replace_all.simps) simp

lemma replace_all_miss:
  "pat \<noteq> [] \<Longrightarrow> take (length pat) (c # cs) \<noteq> pat
     \<Longrightarrow> replace_all pat rep (c # cs) = c # replace_all pat rep cs"
  by (subst replace_all.simps) simp

lemma replace_all_skip:
  assumes "pat \<noteq> []" and "hd pat \<notin> set pre"
  shows "replace_all pat rep (pre @ xs) = pre @ replace_all pat rep xs"
  using assms(2)
proof (induction pre)
  case Nil
  show ?case by simp
next
  case (Cons c cs)
  from assms(1) obtain p ps where pat: "pat = p # ps" by (cases pat) auto
  with Cons.prems have "take (length pat) (c # cs @ xs) \<noteq> pat" by auto
  with assms(1) Cons show ?case by (simp add: replace_all_miss)
qed

lemma replace_all_none:
  "pat \<noteq> [] \<Longrightarrow> hd pat \<notin> set xs \<Longrightarrow> replace_all pat rep xs = xs"
  using replace_all_skip [of pat xs rep "[]"] by (simp add: replace_all_Nil)

lemma substitute_no_brace:
  "CHR ''{'' \<notin> set s \<Longrightarrow> substitute fm vals s = s"
  by (induction s) (auto simp: match_placeholder_def)


lemma plain_set:
  "plain s \<Longrightarrow> CHR ''{'' \<notin> set s \<and> CHR ''}'' \<notin> set s \<and> CHR 0x00 \<notin> set s"
  by (auto simp: plain_def list_all_iff)

section \<open>Interpolation: missing names and suppression\<close>

text \<open>
  A placeholder in plain text whose name is neither an entry of the value object nor a
  property it inherits is left as it is, for every formatter registry.
\<close>

lemma ident_char_not_special:
  "is_ident_char c \<Longrightarrow> c \<noteq> CHR ''{'' \<and> c \<noteq> CHR ''}'' \<and> c \<noteq> CHR '','' \<and> c \<noteq> CHR 0x00"
  by (auto simp: is_ident_char_def is_letter_def lower_letters_def upper_letters_def digits_def)

lemma identifier_plain: "is_identifier name \<Longrightarrow> plain name"
  by (auto simp: is_identifier_def plain_def list_all_iff dest: ident_char_not_special)

lemma match_placeholder_simple:
  assumes "is_identifier name"
  shows "match_placeholder (''{'' @ name @ ''}'' @ post) = Some (name, None, post)"
proof -
  have all: "\<And>x. x \<in> set name \<Longrightarrow> is_ident_char x"
    using assms by (simp add: is_identifier_def list_all_iff)
  have stop: "\<not> is_ident_char (CHR ''}'')"
    using ident_char_not_special by blast
  have tw: "takeWhile is_ident_char (name @ CHR ''}'' # post) = name"
    using all stop by (simp add: takeWhile_append2)
  have dw: "dropWhile is_ident_char (name @ CHR ''}'' # post) = CHR ''}'' # post"
    using all stop by (simp add: dropWhile_append2)
  show ?thesis
    using assms by (simp add: match_placeholder_def tw dw is_identifier_def)
qed

lemma substitute_skip:
  "CHR ''{'' \<notin> set pre \<Longrightarrow> substitute fm vals (pre @ xs) = pre @ substitute fm vals xs"
  by (induction pre) (auto simp: match_placeholder_def)

lemma substitute_missing:
  assumes "plain pre" and "plain post" and "is_identifier name" and "\<not> has_property name vals"
  shows "substitute fm vals (pre @ ''{'' @ name @ ''}'' @ post) = pre @ ''{'' @ name @ ''}'' @ post"
proof -
  have "substitute fm vals (''{'' @ name @ ''}'' @ post)
          = placeholder_text name None @ substitute fm vals post"
    using match_placeholder_simple [OF assms(3), of post] assms(4) by simp
  also have "substitute fm vals post = post"
    using plain_set [OF assms(2)] by (intro substitute_no_brace) simp
  finally show ?thesis
    using plain_set [OF assms(1)] by (simp add: substitute_skip placeholder_text_def)
qed

lemma protect_single_braces:
  assumes "plain pre" and "plain post" and "is_identifier name"
  shows "replace_all ''}}'' escape_close
           (replace_all ''{{'' escape_open (pre @ ''{'' @ name @ ''}'' @ post))
         = pre @ ''{'' @ name @ ''}'' @ post"
proof -
  note p = plain_set [OF assms(1)] plain_set [OF assms(2)] plain_set [OF identifier_plain [OF assms(3)]]
  obtain c cs where name: "name = c # cs" and c: "c \<noteq> CHR ''{''"
    using assms(3) p by (cases name) (auto simp: is_identifier_def)
  have m1: "take (length ''{{'') (CHR ''{'' # name @ ''}'' @ post) \<noteq> ''{{''"
    using name c by simp
  have "replace_all ''{{'' escape_open (name @ ''}'' @ post) = name @ ''}'' @ post"
    using p by (intro replace_all_none) simp_all
  then have "replace_all ''{{'' escape_open (''{'' @ name @ ''}'' @ post) = ''{'' @ name @ ''}'' @ post"
    using replace_all_miss [OF _ m1, of escape_open] by simp
  then have open_done: "replace_all ''{{'' escape_open (pre @ ''{'' @ name @ ''}'' @ post)
                  = (pre @ ''{'' @ name) @ ''}'' @ post"
    using p replace_all_skip [of "''{{''" pre escape_open "''{'' @ name @ ''}'' @ post"] by simp
  have m2: "take (length ''}}'') (CHR ''}'' # post) \<noteq> ''}}''"
    using p by (cases post) auto
  have "replace_all ''}}'' escape_close post = post"
    using p by (intro replace_all_none) simp_all
  then have "replace_all ''}}'' escape_close (''}'' @ post) = ''}'' @ post"
    using replace_all_miss [OF _ m2, of escape_close] by simp
  then have "replace_all ''}}'' escape_close ((pre @ ''{'' @ name) @ ''}'' @ post)
                  = (pre @ ''{'' @ name) @ ''}'' @ post"
    using p replace_all_skip [of "''}}''" "pre @ ''{'' @ name" escape_close "''}'' @ post"] by simp
  with open_done show ?thesis by simp
qed

lemma restore_nothing:
  assumes "CHR 0x00 \<notin> set s"
  shows "replace_all escape_close ''}'' (replace_all escape_open ''{'' s) = s"
proof -
  have "replace_all escape_open ''{'' s = s"
    using assms by (intro replace_all_none) (simp_all add: escape_open_def)
  moreover have "replace_all escape_close ''}'' s = s"
    using assms by (intro replace_all_none) (simp_all add: escape_close_def)
  ultimately show ?thesis by simp
qed

lemma interpolate_missing_verbatim:
  assumes "plain pre" and "plain post" and "is_identifier name" and "\<not> has_property name vals"
  shows "interpolate fm (pre @ ''{'' @ name @ ''}'' @ post) vals = pre @ ''{'' @ name @ ''}'' @ post"
proof -
  note p = plain_set [OF assms(1)] plain_set [OF assms(2)] plain_set [OF identifier_plain [OF assms(3)]]
  have "CHR 0x00 \<notin> set (pre @ ''{'' @ name @ ''}'' @ post)"
    using p by simp
  then show ?thesis
    unfolding interpolate_def Let_def
      protect_single_braces [OF assms(1,2,3)] substitute_missing [OF assms]
    by (rule restore_nothing)
qed

lemma interpolate_pages_missing:
  "interpolate fm ''pages={missing}'' (Object_fromEntries []) = ''pages={missing}''"
proof -
  have "plain ''pages=''" "plain []" "is_identifier ''missing''"
    "\<not> has_property ''missing'' (Object_fromEntries [])"
    by (simp_all add: plain_def is_identifier_def has_property_def Object_fromEntries_def
        Object_prototype_properties_def is_ident_start_def is_ident_char_def is_letter_def
        lower_letters_def)
  from interpolate_missing_verbatim [OF this, of fm] show ?thesis by simp
qed

lemma computeValue_suppressed:
  "bare_assignment (interpolate fm (template el) (values_of f el)) \<Longrightarrow> computeValue fm f el = []"
  by (simp add: computeValue_def)

lemma bare_assignment_pages: "bare_assignment ''pages= ''"
  by code_simp

text \<open>
  Claim C4. A placeholder whose identifier is absent from the values is to be left
  verbatim, and a computed value that is a bare \<^verbatim>\<open>key=\<close> followed by white space only
  is suppressed. The second part holds (\<open>computeValue_suppressed\<close>), and so does the
  first for names that \<^verbatim>\<open>Object.prototype\<close> does not define
  (\<open>interpolate_missing_verbatim\<close>). But the callback tests \<^verbatim>\<open>name in values\<close>, which
  is also true of inherited names: with no entry named \<^verbatim>\<open>constructor\<close> at all, the
  placeholder \<^verbatim>\<open>{constructor}\<close> is replaced by the text of the inherited function.
\<close>

theorem interpolate_inherited_name:
  "Object_fromEntries [] ''constructor'' = None
   \<and> interpolate no_formatters ''built-by={constructor}'' (Object_fromEntries [])
       = ''built-by=function Object() { [native code] }''"
  by code_simp

section \<open>Routing of the free fields\<close>

lemma foldl_FormData_delete:
  "foldl (\<lambda>fd name. FormData_delete name fd) fd names = filter (\<lambda>(k, v). k \<notin> set names) fd"
proof (induction names arbitrary: fd)
  case Nil
  show ?case by simp
next
  case (Cons n ns)
  have "foldl (\<lambda>fd name. FormData_delete name fd) fd (n # ns)
          = foldl (\<lambda>fd name. FormData_delete name fd) (FormData_delete n fd) ns"
    by simp
  also have "\<dots> = filter (\<lambda>(k, v). k \<notin> set ns) (FormData_delete n fd)"
    by (rule Cons.IH)
  also have "\<dots> = filter (\<lambda>(k, v). k \<notin> set (n # ns)) fd"
    unfolding FormData_delete_def filter_filter by (rule filter_cong) auto
  finally show ?case .
qed

lemma getHeaderBoundFields_set:
  "set (getHeaderBoundFields f) =
     {k. \<exists>el \<in> set (request_headers f). \<exists>e \<in> set (elements f).
           (el_for e = Some (rh_id el) \<or> rh_node el \<in> set (el_within e))
           \<and> el_name e = k \<and> k \<noteq> []}"
  by (auto simp: getHeaderBoundFields_def Set_new_set inputs_def split: if_splits)

lemma collectFormData_free: "collectFormData f = free_fields f"
  by (simp add: collectFormData_def foldl_FormData_delete getHeaderBoundFields_set free_fields_def)

lemma bound_not_free:
  assumes "el \<in> set (request_headers f)" and "e \<in> set (elements f)"
    and "el_for e = Some (rh_id el) \<or> rh_node el \<in> set (el_within e)" and "el_name e \<noteq> []"
  shows "el_name e \<notin> set (map fst (free_fields f))"
  using assms by (auto simp: free_fields_def)


lemma urlencoded_text_pairs:
  "map (\<lambda>(k, v). (k, String (Own v))) (filter (\<lambda>(k, v). \<not> is_File v) es) = text_pairs es"
proof (induction es)
  case Nil
  show ?case by (simp add: text_pairs_def map_filter_simps)
next
  case (Cons p ps)
  obtain k v where p: "p = (k, v)" by (cases p)
  from Cons p show ?case
    by (cases v) (simp_all add: text_pairs_def map_filter_simps)
qed

lemma buildRequest_query:
  assumes "effective_method f \<in> set [''GET'', ''HEAD'', ''DELETE'']"
  shows "url_search (req_url (buildRequest fm h f))
           = SearchParams (map (\<lambda>(k, v). (k, query_value v)) (free_fields f))"
    and "req_body (buildRequest fm h f) = None"
  using assms by (simp_all add: buildRequest_def Let_def collectFormData_free)

lemma buildRequest_body:
  assumes "effective_method f \<notin> set [''GET'', ''HEAD'', ''DELETE'']"
  shows "url_search (req_url (buildRequest fm h f)) = ActionSearch"
    and "req_body (buildRequest fm h f)
           = Some (encodeBody (free_fields f) (effective_enctype f))"
    and "req_method (buildRequest fm h f) = effective_method f"
  using assms by (simp_all add: buildRequest_def Let_def collectFormData_free)

text \<open>
  Claim C2, amended. When the effective method is GET, HEAD or DELETE, the search
  component of the request URL is made of every free field, in order, a file by its
  file name, and the request has no body. When it is POST, PUT or PATCH, the search
  component is left as the action has it, and the body is the encoding of the free
  fields by the effective enctype: all of them for \<^verbatim>\<open>text/plain\<close> and for any enctype
  other than the two named ones, and the string-valued ones only for
  \<^verbatim>\<open>application/x-www-form-urlencoded\<close>.
\<close>

theorem buildRequest_routing:
  "(effective_method f \<in> set [''GET'', ''HEAD'', ''DELETE''] \<longrightarrow>
      url_search (req_url (buildRequest fm h f))
        = SearchParams (map (\<lambda>(k, v). (k, case v of File n \<Rightarrow> n | Text s \<Rightarrow> s)) (free_fields f))
      \<and> req_body (buildRequest fm h f) = None)
   \<and> (effective_method f \<in> set [''POST'', ''PUT'', ''PATCH''] \<longrightarrow>
      url_search (req_url (buildRequest fm h f)) = ActionSearch
      \<and> req_body (buildRequest fm h f)
          = Some (if effective_enctype f = ''text/plain''
                  then TextBody (join [CHR 0x0D, CHR 0x0A]
                                   (map (\<lambda>(k, v). k @ ''='' @ String (Own v)) (free_fields f)))
                  else if effective_enctype f = ''application/x-www-form-urlencoded''
                  then UrlencodedBody (text_pairs (free_fields f))
                  else FormDataBody (free_fields f)))"
proof -
  have q: "(\<lambda>(k, v). (k, query_value v))
             = (\<lambda>(k, v). (k, case v of File n \<Rightarrow> n | Text s \<Rightarrow> s))"
    by (simp add: query_value_def)
  have get: "url_search (req_url (buildRequest fm h f))
        = SearchParams (map (\<lambda>(k, v). (k, case v of File n \<Rightarrow> n | Text s \<Rightarrow> s)) (free_fields f))
      \<and> req_body (buildRequest fm h f) = None"
    if "effective_method f \<in> set [''GET'', ''HEAD'', ''DELETE'']"
    using buildRequest_query [OF that, of fm h] by (simp add: q)
  have post: "url_search (req_url (buildRequest fm h f)) = ActionSearch
      \<and> req_body (buildRequest fm h f)
          = Some (if effective_enctype f = ''text/plain''
                  then TextBody (join [CHR 0x0D, CHR 0x0A]
                                   (map (\<lambda>(k, v). k @ ''='' @ String (Own v)) (free_fields f)))
                  else if effective_enctype f = ''application/x-www-form-urlencoded''
                  then UrlencodedBody (text_pairs (free_fields f))
                  else FormDataBody (free_fields f))"
    if m: "effective_method f \<in> set [''POST'', ''PUT'', ''PATCH'']"
  proof -
    from m have "effective_method f \<notin> set [''GET'', ''HEAD'', ''DELETE'']" by auto
    from buildRequest_body(1,2) [OF this, of fm h] show ?thesis
      by (simp add: encodeBody_def urlencoded_text_pairs)
  qed
  from get post show ?thesis by blast
qed

theorem buildRequest_routing_witness:
  "effective_method demo_form = ''GET''
   \<and> url_search (req_url (buildRequest no_formatters demo_host demo_form))
       = SearchParams [(''q'', ''x''), (''doc'', ''a.pdf'')]
   \<and> req_body (buildRequest no_formatters demo_host demo_form) = None
   \<and> effective_method demo_post_form = ''POST''
   \<and> url_search (req_url (buildRequest no_formatters demo_host demo_post_form)) = ActionSearch
   \<and> req_body (buildRequest no_formatters demo_host demo_post_form)
       = Some (UrlencodedBody [(''q'', ''x'')])"
proof -
  have m: "effective_method demo_form = ''GET''" "effective_method demo_post_form = ''POST''"
    by code_simp+
  have e: "effective_enctype demo_post_form = ''application/x-www-form-urlencoded''"
    by code_simp
  have fr: "free_fields demo_form = [(''q'', Text ''x''), (''doc'', File ''a.pdf'')]"
    "free_fields demo_post_form = [(''q'', Text ''x''), (''doc'', File ''a.pdf'')]"
    by code_simp+
  have tp: "text_pairs [(''q'', Text ''x''), (''doc'', File ''a.pdf'')] = [(''q'', ''x'')]"
    by (simp add: text_pairs_def map_filter_simps)
  from buildRequest_routing [of demo_form no_formatters demo_host]
    buildRequest_routing [of demo_post_form no_formatters demo_host] m e fr tp
  show ?thesis by simp
qed

text \<open>
  Claim C2 as stated fails: with the method POST and the default enctype, the free file
  field \<^verbatim>\<open>doc\<close> is in neither the query string nor the body.
\<close>

theorem buildRequest_post_drops_file:
  "effective_method demo_post_form = ''POST''
   \<and> (''doc'', File ''a.pdf'') \<in> set (free_fields demo_post_form)
   \<and> url_search (req_url (buildRequest no_formatters demo_host demo_post_form)) = ActionSearch
   \<and> req_body (buildRequest no_formatters demo_host demo_post_form)
       = Some (UrlencodedBody [(''q'', ''x'')])"
  by code_simp

text \<open>
  Claim C3. A field whose name, not empty, belongs to a listed element that a
  \<^verbatim>\<open>request-header\<close> fieldset of the form contains, or that links to the fieldset by
  \<^verbatim>\<open>for=\<close>, is absent from what \<^const>\<open>collectFormData\<close> returns, from the query
  parameters and from the pairs or parts of the body; and the URL and the body of the
  request, the \<^verbatim>\<open>text/plain\<close> body included, are the same as when the snapshot holds
  no entry of that name. One such fieldset is enough.
\<close>

theorem header_bound_field_not_routed:
  assumes "el \<in> set (request_headers f)" and "e \<in> set (elements f)"
    and "el_for e = Some (rh_id el) \<or> rh_node el \<in> set (el_within e)"
    and "el_name e \<noteq> []"
  shows "el_name e \<notin> set (map fst (collectFormData f))
     \<and> (\<forall>ps. url_search (req_url (buildRequest fm h f)) = SearchParams ps
            \<longrightarrow> el_name e \<notin> set (map fst ps))
     \<and> (\<forall>ps. req_body (buildRequest fm h f) = Some (UrlencodedBody ps)
            \<longrightarrow> el_name e \<notin> set (map fst ps))
     \<and> (\<forall>es. req_body (buildRequest fm h f) = Some (FormDataBody es)
            \<longrightarrow> el_name e \<notin> set (map fst es))
     \<and> req_url (buildRequest fm h f)
         = req_url (buildRequest fm h
             (f\<lparr>formData := \<lambda>s. FormData_delete (el_name e) (formData f s)\<rparr>))
     \<and> req_body (buildRequest fm h f)
         = req_body (buildRequest fm h
             (f\<lparr>formData := \<lambda>s. FormData_delete (el_name e) (formData f s)\<rparr>))"
proof -
  let ?n = "el_name e"
  let ?f' = "f\<lparr>formData := \<lambda>s. FormData_delete ?n (formData f s)\<rparr>"
  have nf: "?n \<notin> set (map fst (free_fields f))"
    using assms by (rule bound_not_free)
  have same: "free_fields ?f' = free_fields f"
    using assms unfolding free_fields_def FormData_delete_def
    by (simp add: filter_filter) (rule filter_cong, auto)
  have m: "effective_method ?f' = effective_method f" "effective_enctype ?f' = effective_enctype f"
    by (simp_all add: effective_method_def effective_enctype_def)
  have c1: "?n \<notin> set (map fst (collectFormData f))"
    using nf by (simp add: collectFormData_free)
  have fst_map: "map fst (map (\<lambda>(k, v). (k, g v)) es) = map fst es"
    for g :: "fvalue \<Rightarrow> string" and es :: entries
    by (simp add: case_prod_unfold comp_def)
  have nq: "?n \<notin> set (map fst (map (\<lambda>(k, v). (k, query_value v)) (free_fields f)))"
    using nf unfolding fst_map .
  have "set (filter (\<lambda>(k, v). \<not> is_File v) (free_fields f)) \<subseteq> set (free_fields f)"
    by auto
  then have "set (map fst (filter (\<lambda>(k, v). \<not> is_File v) (free_fields f)))
               \<subseteq> set (map fst (free_fields f))"
    unfolding set_map by (rule image_mono)
  with nf have nu: "?n \<notin> set (map fst (map (\<lambda>(k, v). (k, String (Own v)))
                                    (filter (\<lambda>(k, v). \<not> is_File v) (free_fields f))))"
    unfolding fst_map by blast
  have c2: "?n \<notin> set (map fst ps)"
    if "url_search (req_url (buildRequest fm h f)) = SearchParams ps" for ps
  proof (cases "effective_method f \<in> set [''GET'', ''HEAD'', ''DELETE'']")
    case True
    from buildRequest_query(1) [OF True, of fm h] that nq show ?thesis by simp
  next
    case False
    from buildRequest_body(1) [OF False, of fm h] that show ?thesis by simp
  qed
  have body: "req_body (buildRequest fm h f) = None
      \<or> req_body (buildRequest fm h f) = Some (encodeBody (free_fields f) (effective_enctype f))"
    using buildRequest_query(2) [of f fm h] buildRequest_body(2) [of f fm h] by blast
  have c3: "?n \<notin> set (map fst ps)"
    if "req_body (buildRequest fm h f) = Some (UrlencodedBody ps)" for ps
    using that body nu by (auto simp only: encodeBody_def split: if_splits)
  have c4: "?n \<notin> set (map fst es)"
    if "req_body (buildRequest fm h f) = Some (FormDataBody es)" for es
    using that body nf by (auto simp only: encodeBody_def split: if_splits)
  have c5: "req_url (buildRequest fm h f) = req_url (buildRequest fm h ?f')"
    and c6: "req_body (buildRequest fm h f) = req_body (buildRequest fm h ?f')"
    using same m by (simp_all add: buildRequest_def Let_def collectFormData_free)
  from c1 c2 c3 c4 c5 c6 show ?thesis by blast
qed


theorem header_bound_field_not_routed_witness:
  "demo_view \<in> set (request_headers demo_form)
   \<and> hd (elements demo_form) \<in> set (elements demo_form)
   \<and> el_for (hd (elements demo_form)) = Some (rh_id demo_view)
   \<and> el_name (hd (elements demo_form)) = ''view''
   \<and> (''view'', Text ''list'') \<in> set (formData demo_form (submitter_slot demo_form))
   \<and> ''view'' \<notin> set (map fst (collectFormData demo_form))
   \<and> url_search (req_url (buildRequest no_formatters demo_host demo_form))
       = SearchParams [(''q'', ''x''), (''doc'', ''a.pdf'')]
   \<and> ''view'' \<notin> set (map fst [(''q'', ''x''), (''doc'', ''a.pdf'')])"
proof -
  let ?e = "hd (elements demo_form)"
  have a: "demo_view \<in> set (request_headers demo_form)" "?e \<in> set (elements demo_form)"
    by (simp_all add: demo_form_def)
  have b: "el_for ?e = Some (rh_id demo_view)" "el_name ?e = ''view''"
    by (simp_all add: demo_form_def demo_view_def)
  then have c: "el_for ?e = Some (rh_id demo_view) \<or> rh_node demo_view \<in> set (el_within ?e)"
    and d: "el_name ?e \<noteq> []"
    by simp_all
  have fd: "(''view'', Text ''list'') \<in> set (formData demo_form (submitter_slot demo_form))"
    by (simp add: demo_form_def)
  have q: "url_search (req_url (buildRequest no_formatters demo_host demo_form))
       = SearchParams [(''q'', ''x''), (''doc'', ''a.pdf'')]"
    by code_simp
  from header_bound_field_not_routed [OF a c d, of no_formatters demo_host] b fd q a
  show ?thesis by simp
qed

section \<open>Submission protocol\<close>

lemma validation_failure_path:
  assumes "shouldValidate (f\<lparr>submitter_slot := sub\<rparr>) sub"
    and "\<not> checkValidity h (f\<lparr>submitter_slot := sub\<rparr>)"
  shows "requestSubmit fm h f sub = (f\<lparr>submitter_slot := sub\<rparr>, [ReportValidity])"
  using assms by (simp add: requestSubmit_def)

lemma dispatch_path:
  assumes "\<not> (shouldValidate (f\<lparr>submitter_slot := sub\<rparr>) sub
               \<and> \<not> checkValidity h (f\<lparr>submitter_slot := sub\<rparr>))"
  shows "requestSubmit fm h f sub =
     (let f1 = f\<lparr>submitter_slot := sub\<rparr>;
          request = buildRequest fm h f1;
          tgt = or_else (case sub of None \<Rightarrow> [] | Some s \<Rightarrow> formTarget s)
                  (or_else (target f) ''_self'')
      in (f1\<lparr>preparedRequest := None\<rparr>,
          SubmitEvent sub (Some request)
            # (if dispatchEvent h (f1\<lparr>preparedRequest := Some request\<rparr>)
               then [Fetch request tgt] else [])))"
  using assms by (auto simp: requestSubmit_def Let_def)

lemma requestSubmit_preparedRequest:
  "preparedRequest f = None \<Longrightarrow> preparedRequest (fst (requestSubmit fm h f sub)) = None"
  by (simp add: requestSubmit_def Let_def)

lemma submit_form: "fst (submit fm h f) = f"
  by (simp add: submit_def Let_def)

lemma reachable_preparedRequest: "reachable fm f \<Longrightarrow> preparedRequest f = None"
proof (induction rule: reachable.induct)
  case (constructed f)
  then show ?case by simp
next
  case (after_requestSubmit f h sub)
  from after_requestSubmit.IH show ?case by (rule requestSubmit_preparedRequest)
next
  case (after_submit f h)
  then show ?case by (simp add: submit_form)
next
  case (edited f m a en nv t es rs fd)
  then show ?case by simp
qed

text \<open>
  Claim C6. When neither the form's \<^verbatim>\<open>novalidate\<close> nor the submitter's
  \<^verbatim>\<open>formnovalidate\<close> is set and the constraint check fails, \<^verbatim>\<open>requestSubmit\<close> reports
  the invalid state and does nothing else: no request is stored, no \<^verbatim>\<open>submit\<close> event is
  dispatched and no fetch is started.
\<close>

theorem requestSubmit_invalid:
  assumes "\<not> noValidate f"
    and "case sub of None \<Rightarrow> True | Some s \<Rightarrow> \<not> formNoValidate s"
    and "\<not> checkValidity h (f\<lparr>submitter_slot := sub\<rparr>)"
  shows "snd (requestSubmit fm h f sub) = [ReportValidity]
     \<and> fst (requestSubmit fm h f sub) = f\<lparr>submitter_slot := sub\<rparr>
     \<and> preparedRequest (fst (requestSubmit fm h f sub)) = preparedRequest f
     \<and> (\<forall>s p. SubmitEvent s p \<notin> set (snd (requestSubmit fm h f sub)))
     \<and> (\<forall>r t. Fetch r t \<notin> set (snd (requestSubmit fm h f sub)))"
proof -
  have "shouldValidate (f\<lparr>submitter_slot := sub\<rparr>) sub"
    using assms(1,2) by (cases sub) (simp_all add: shouldValidate_def)
  from validation_failure_path [OF this assms(3), of fm] show ?thesis by simp
qed

theorem requestSubmit_invalid_witness:
  "\<not> noValidate demo_form
   \<and> \<not> formNoValidate demo_button
   \<and> \<not> checkValidity demo_invalid_host (demo_form\<lparr>submitter_slot := Some demo_button\<rparr>)
   \<and> snd (requestSubmit no_formatters demo_invalid_host demo_form (Some demo_button))
       = [ReportValidity]
   \<and> preparedRequest (fst (requestSubmit no_formatters demo_invalid_host demo_form (Some demo_button)))
       = None"
proof -
  have a: "\<not> noValidate demo_form"
    by (simp add: demo_form_def)
  have b: "\<not> formNoValidate demo_button"
    by (simp add: demo_button_def)
  then have b': "case Some demo_button of None \<Rightarrow> True | Some s \<Rightarrow> \<not> formNoValidate s"
    by simp
  have c: "\<not> checkValidity demo_invalid_host (demo_form\<lparr>submitter_slot := Some demo_button\<rparr>)"
    by (simp add: demo_invalid_host_def)
  have d: "preparedRequest demo_form = None"
    by (simp add: demo_form_def)
  from requestSubmit_invalid [OF a b' c, of no_formatters] a b c d show ?thesis by simp
qed

text \<open>
  Claim C7. In a call that reaches the dispatch of the \<^verbatim>\<open>submit\<close> event: when a listener
  cancels the event, the event is all that happens and the prepared request is dropped;
  when no listener cancels it, the prepared request is fetched. So a fetch is started
  exactly when the dispatch was not cancelled: the dispatch is the only point where the
  submission can be called off.
\<close>

theorem requestSubmit_cancel:
  assumes "\<not> (shouldValidate (f\<lparr>submitter_slot := sub\<rparr>) sub
               \<and> \<not> checkValidity h (f\<lparr>submitter_slot := sub\<rparr>))"
    and "request = buildRequest fm h (f\<lparr>submitter_slot := sub\<rparr>)"
    and "f2 = f\<lparr>submitter_slot := sub, preparedRequest := Some request\<rparr>"
  shows "(\<not> dispatchEvent h f2 \<longrightarrow>
            snd (requestSubmit fm h f sub) = [SubmitEvent sub (Some request)]
            \<and> preparedRequest (fst (requestSubmit fm h f sub)) = None)
     \<and> (dispatchEvent h f2 \<longrightarrow>
            (\<exists>tgt. snd (requestSubmit fm h f sub)
                      = [SubmitEvent sub (Some request), Fetch request tgt]))
     \<and> ((\<exists>r tgt. Fetch r tgt \<in> set (snd (requestSubmit fm h f sub))) = dispatchEvent h f2)"
  using assms(2,3) by (auto simp: dispatch_path [OF assms(1)] Let_def)

theorem requestSubmit_cancel_witness:
  "\<not> dispatchEvent demo_cancel_host
        (demo_form\<lparr>submitter_slot := None,
                    preparedRequest := Some (buildRequest no_formatters demo_cancel_host
                                               (demo_form\<lparr>submitter_slot := None\<rparr>))\<rparr>)
   \<and> snd (requestSubmit no_formatters demo_cancel_host demo_form None)
       = [SubmitEvent None (Some (buildRequest no_formatters demo_cancel_host
                                    (demo_form\<lparr>submitter_slot := None\<rparr>)))]
   \<and> preparedRequest (fst (requestSubmit no_formatters demo_cancel_host demo_form None)) = None"
proof -
  have v: "\<not> (shouldValidate (demo_form\<lparr>submitter_slot := None\<rparr>) None
               \<and> \<not> checkValidity demo_cancel_host (demo_form\<lparr>submitter_slot := None\<rparr>))"
    by (simp add: demo_cancel_host_def demo_host_def)
  have c: "\<not> dispatchEvent demo_cancel_host
        (demo_form\<lparr>submitter_slot := None,
                    preparedRequest := Some (buildRequest no_formatters demo_cancel_host
                                               (demo_form\<lparr>submitter_slot := None\<rparr>))\<rparr>)"
    by (simp add: demo_cancel_host_def)
  from requestSubmit_cancel [OF v refl refl, of no_formatters] c show ?thesis by simp
qed

text \<open>
  Claim C9. In every state a form can be in between two calls \<^verbatim>\<open>preparedRequest\<close> is
  null, and it is null again when \<^verbatim>\<open>requestSubmit\<close> returns, on each of its paths; the
  listeners of the \<^verbatim>\<open>submit\<close> event see the request that was built; and \<^verbatim>\<open>submit\<close>
  leaves the form as it is.
\<close>

theorem preparedRequest_null_when_idle:
  assumes "reachable fm f"
  shows "preparedRequest f = None
     \<and> preparedRequest (fst (requestSubmit fm h f sub)) = None
     \<and> (\<forall>s p. SubmitEvent s p \<in> set (snd (requestSubmit fm h f sub))
            \<longrightarrow> p = Some (buildRequest fm h (f\<lparr>submitter_slot := sub\<rparr>)))
     \<and> fst (submit fm h f) = f
     \<and> preparedRequest (fst (submit fm h f)) = None"
proof -
  have n: "preparedRequest f = None"
    using assms by (rule reachable_preparedRequest)
  have ev: "p = Some (buildRequest fm h (f\<lparr>submitter_slot := sub\<rparr>))"
    if "SubmitEvent s p \<in> set (snd (requestSubmit fm h f sub))" for s p
    using that by (auto simp: requestSubmit_def Let_def split: if_splits)
  from n ev show ?thesis
    by (simp add: requestSubmit_preparedRequest submit_form)
qed

theorem preparedRequest_null_when_idle_witness:
  "reachable no_formatters demo_form
   \<and> reachable no_formatters (fst (requestSubmit no_formatters demo_host demo_form (Some demo_button)))
   \<and> preparedRequest (fst (requestSubmit no_formatters demo_host
        (fst (requestSubmit no_formatters demo_host demo_form (Some demo_button))) None)) = None
   \<and> preparedRequest (fst (submit no_formatters demo_host demo_form)) = None"
proof -
  have r0: "reachable no_formatters demo_form"
    by (rule reachable.constructed) (simp_all add: demo_form_def)
  then have r1: "reachable no_formatters
                   (fst (requestSubmit no_formatters demo_host demo_form (Some demo_button)))"
    by (rule reachable.after_requestSubmit)
  from preparedRequest_null_when_idle [OF r1, of demo_host None]
    preparedRequest_null_when_idle [OF r0, of demo_host None] r0 r1
  show ?thesis by simp
qed

section \<open>Interpolation of well-formed templates\<close>

lemma match_placeholder_spec:
  assumes "is_identifier name" and "spec \<noteq> []" and "CHR ''}'' \<notin> set spec"
  shows "match_placeholder (placeholder_text name (Some spec) @ post) = Some (name, Some spec, post)"
proof -
  have all: "\<And>x. x \<in> set name \<Longrightarrow> is_ident_char x"
    using assms(1) by (simp add: is_identifier_def list_all_iff)
  have stop: "\<not> is_ident_char (CHR '','')"
    using ident_char_not_special by blast
  have tw: "takeWhile is_ident_char (name @ CHR '','' # spec @ CHR ''}'' # post) = name"
    using all stop by (simp add: takeWhile_append2)
  have dw: "dropWhile is_ident_char (name @ CHR '','' # spec @ CHR ''}'' # post)
              = CHR '','' # spec @ CHR ''}'' # post"
    using all stop by (simp add: dropWhile_append2)
  have ns: "\<And>x. x \<in> set spec \<Longrightarrow> x \<noteq> CHR ''}''"
    using assms(3) by auto
  have tw2: "takeWhile (\<lambda>x. x \<noteq> CHR ''}'') (spec @ CHR ''}'' # post) = spec"
    using ns by (simp add: takeWhile_append2)
  have dw2: "dropWhile (\<lambda>x. x \<noteq> CHR ''}'') (spec @ CHR ''}'' # post) = CHR ''}'' # post"
    using ns by (simp add: dropWhile_append2)
  show ?thesis
    using assms(1,2)
    by (simp add: match_placeholder_def placeholder_text_def tw dw tw2 dw2 is_identifier_def)
qed

lemma match_placeholder_text:
  assumes "is_identifier name" and "spec_ok fmt"
  shows "match_placeholder (placeholder_text name fmt @ post) = Some (name, fmt, post)"
proof (cases fmt)
  case None
  with match_placeholder_simple [OF assms(1), of post] show ?thesis
    by (simp add: placeholder_text_def)
next
  case (Some spec)
  with assms(2) have "spec \<noteq> []" "CHR ''}'' \<notin> set spec"
    by (auto simp: spec_ok_def dest: plain_set)
  with Some match_placeholder_spec [OF assms(1), of spec post] show ?thesis by simp
qed

lemma placeholder_text_shape:
  assumes "is_identifier name" and "spec_ok fmt"
  obtains c body where "placeholder_text name fmt = CHR ''{'' # c # body @ ''}''"
    and "c \<noteq> CHR ''{''" and "CHR ''{'' \<notin> set body" and "CHR ''}'' \<notin> set (c # body)"
    and "CHR 0x00 \<notin> set (c # body)"
proof -
  from assms(1) obtain c cs where name: "name = c # cs"
    by (cases name) (auto simp: is_identifier_def)
  have pn: "CHR ''{'' \<notin> set name \<and> CHR ''}'' \<notin> set name \<and> CHR 0x00 \<notin> set name"
    using plain_set [OF identifier_plain [OF assms(1)]] .
  define tl_spec where "tl_spec = (case fmt of None \<Rightarrow> [] | Some spec \<Rightarrow> '','' @ spec)"
  have ps: "CHR ''{'' \<notin> set tl_spec \<and> CHR ''}'' \<notin> set tl_spec \<and> CHR 0x00 \<notin> set tl_spec"
    using assms(2) by (cases fmt) (auto simp: tl_spec_def spec_ok_def dest: plain_set)
  have "placeholder_text name fmt = CHR ''{'' # c # (cs @ tl_spec) @ ''}''"
    by (simp add: placeholder_text_def name tl_spec_def)
  moreover have "c \<noteq> CHR ''{''" "CHR ''{'' \<notin> set (cs @ tl_spec)"
    "CHR ''}'' \<notin> set (c # cs @ tl_spec)" "CHR 0x00 \<notin> set (c # cs @ tl_spec)"
    using pn ps name by auto
  ultimately show thesis by (rule that)
qed


lemma starts_with_Nil: "starts_with [] s" "\<not> starts_with (c # p) []"
  by (simp_all add: starts_with_def)

lemma starts_with_Cons: "starts_with (c # p) (x # s) = (c = x \<and> starts_with p s)"
  by (auto simp: starts_with_def)

lemma starts_with1_append:
  "starts_with [c] (p @ X) = (if p = [] then starts_with [c] X else hd p = c)"
  by (cases p) (simp_all add: starts_with_def)

lemma first_close_render:
  assumes "a \<noteq> []" and "hd a \<noteq> CHR ''}''" and "a' \<noteq> []" and "hd a' \<noteq> CHR ''}''"
  shows "starts_with ''}'' (render a b h r) \<longleftrightarrow> starts_with ''}'' (render a' b h r)"
proof (induction r)
  case Nil
  show ?case by simp
next
  case (Cons x r)
  with assms show ?case
    by (cases x) (auto simp: starts_with1_append)
qed

lemma protect_open_render:
  assumes "well_formed fm vals segs"
  shows "replace_all ''{{'' escape_open (render ''{{'' ''}}'' placeholder_text segs)
           = render escape_open ''}}'' placeholder_text segs"
  using assms
proof (induction segs)
  case Nil
  show ?case by (simp add: replace_all_Nil)
next
  case (Cons x r)
  show ?case
  proof (cases x)
    case (Lit s)
    with Cons show ?thesis
      using replace_all_skip [of "''{{''" s] by (auto dest: plain_set)
  next
    case EscOpen
    with Cons show ?thesis
      using replace_all_hit [of "''{{''"] by simp
  next
    case EscClose
    with Cons show ?thesis
      using replace_all_skip [of "''{{''" "''}}''"] by simp
  next
    case (Hole name fmt)
    with Cons.prems have id: "is_identifier name" and sp: "spec_ok fmt" by simp_all
    from id sp obtain c body where pt: "placeholder_text name fmt = CHR ''{'' # c # body @ ''}''"
      and c: "c \<noteq> CHR ''{''" and b: "CHR ''{'' \<notin> set body"
      by (rule placeholder_text_shape)
    let ?R = "render ''{{'' ''}}'' placeholder_text r"
    have m: "take (length ''{{'') (CHR ''{'' # (c # body @ ''}'') @ ?R) \<noteq> ''{{''"
      using c by simp
    have "replace_all ''{{'' escape_open ((c # body @ ''}'') @ ?R)
            = (c # body @ ''}'') @ replace_all ''{{'' escape_open ?R"
      using c b by (intro replace_all_skip) simp_all
    then have "replace_all ''{{'' escape_open (CHR ''{'' # (c # body @ ''}'') @ ?R)
            = CHR ''{'' # (c # body @ ''}'') @ replace_all ''{{'' escape_open ?R"
      using replace_all_miss [OF _ m, of escape_open] by simp
    with Hole Cons pt show ?thesis by simp
  qed
qed

lemma protect_close_render:
  assumes "well_formed fm vals segs"
  shows "replace_all ''}}'' escape_close (render escape_open ''}}'' placeholder_text segs)
           = render escape_open escape_close placeholder_text segs"
  using assms
proof (induction segs)
  case Nil
  show ?case by (simp add: replace_all_Nil)
next
  case (Cons x r)
  show ?case
  proof (cases x)
    case (Lit s)
    with Cons show ?thesis
      using replace_all_skip [of "''}}''" s] by (auto dest: plain_set)
  next
    case EscOpen
    with Cons show ?thesis
      using replace_all_skip [of "''}}''" escape_open] by (simp add: escape_open_def)
  next
    case EscClose
    with Cons show ?thesis
      using replace_all_hit [of "''}}''"] by simp
  next
    case (Hole name fmt)
    with Cons.prems have id: "is_identifier name" and sp: "spec_ok fmt"
      and nc: "\<not> starts_with ''}'' (template_text r)" by simp_all
    from id sp obtain c body where pt: "placeholder_text name fmt = CHR ''{'' # c # body @ ''}''"
      and b: "CHR ''}'' \<notin> set (c # body)"
      by (rule placeholder_text_shape)
    let ?R = "render escape_open ''}}'' placeholder_text r"
    have "\<not> starts_with ''}'' ?R"
      using nc first_close_render [of escape_open "''{{''" "''}}''" placeholder_text r]
      by (simp add: template_text_def escape_open_def)
    then have m: "take (length ''}}'') (CHR ''}'' # ?R) \<noteq> ''}}''"
      by (cases ?R) (auto simp: starts_with_def)
    have "replace_all ''}}'' escape_close (CHR ''}'' # ?R)
            = CHR ''}'' # replace_all ''}}'' escape_close ?R"
      using replace_all_miss [OF _ m, of escape_close] by simp
    moreover have "replace_all ''}}'' escape_close ((CHR ''{'' # c # body) @ CHR ''}'' # ?R)
            = (CHR ''{'' # c # body) @ replace_all ''}}'' escape_close (CHR ''}'' # ?R)"
      using b by (intro replace_all_skip) simp_all
    ultimately show ?thesis
      using Hole Cons pt by simp
  qed
qed

lemma substitute_render:
  assumes "well_formed fm vals segs"
  shows "substitute fm vals (render escape_open escape_close placeholder_text segs)
           = render escape_open escape_close (replacement fm vals) segs"
  using assms
proof (induction segs)
  case Nil
  show ?case by simp
next
  case (Cons x r)
  show ?case
  proof (cases x)
    case (Lit s)
    with Cons show ?thesis
      by (auto simp: substitute_skip dest: plain_set)
  next
    case EscOpen
    with Cons show ?thesis
      using substitute_skip [of escape_open] by (simp add: escape_open_def)
  next
    case EscClose
    with Cons show ?thesis
      using substitute_skip [of escape_close] by (simp add: escape_close_def)
  next
    case (Hole name fmt)
    with Cons.prems have id: "is_identifier name" and sp: "spec_ok fmt" by simp_all
    let ?R = "render escape_open escape_close placeholder_text r"
    have pt: "placeholder_text name fmt @ ?R = CHR ''{'' # tl (placeholder_text name fmt @ ?R)"
      by (simp add: placeholder_text_def)
    have "match_placeholder (CHR ''{'' # tl (placeholder_text name fmt @ ?R)) = Some (name, fmt, ?R)"
      using match_placeholder_text [OF id sp, of ?R] pt by simp
    then have "substitute fm vals (CHR ''{'' # tl (placeholder_text name fmt @ ?R))
                 = replacement fm vals name fmt @ substitute fm vals ?R"
      by (simp add: replacement_def)
    with pt have "substitute fm vals (placeholder_text name fmt @ ?R)
                 = replacement fm vals name fmt @ substitute fm vals ?R"
      by simp
    with Hole Cons show ?thesis by simp
  qed
qed


lemma first_marker_render:
  assumes "well_formed fm vals r"
    and "starts_with [CHR 0x00] (render escape_open escape_close (replacement fm vals) r)"
  shows "starts_with ''{'' (render ''{'' ''}'' (replacement fm vals) r)
         \<or> starts_with ''}'' (render ''{'' ''}'' (replacement fm vals) r)"
  using assms
proof (induction r)
  case Nil
  then show ?case by (simp add: starts_with_def)
next
  case (Cons x r)
  show ?case
  proof (cases x)
    case (Lit s)
    with Cons.prems plain_set [of s] have "s = []"
      by (cases s) (auto simp: starts_with_Cons)
    with Lit Cons show ?thesis by simp
  next
    case EscOpen
    then show ?thesis by (simp add: starts_with_def)
  next
    case EscClose
    then show ?thesis by (simp add: starts_with_def)
  next
    case (Hole name fmt)
    with Cons.prems have "replacement fm vals name fmt = []"
      by (cases "replacement fm vals name fmt") (auto simp: starts_with_Cons)
    with Hole Cons show ?thesis by simp
  qed
qed

lemma lone_O_render:
  assumes "well_formed fm vals r"
    and "starts_with [CHR ''O'', CHR 0x00] (render escape_open escape_close (replacement fm vals) r)"
  shows "starts_with ''O{'' (render ''{'' ''}'' (replacement fm vals) r)
         \<or> starts_with ''O}'' (render ''{'' ''}'' (replacement fm vals) r)"
  using assms
proof (induction r)
  case Nil
  then show ?case by (simp add: starts_with_def)
next
  case (Cons x r)
  have piece: ?case
    if x: "render escape_open escape_close (replacement fm vals) (x # r)
             = p @ render escape_open escape_close (replacement fm vals) r"
      "render ''{'' ''}'' (replacement fm vals) (x # r)
             = p @ render ''{'' ''}'' (replacement fm vals) r"
      and nul: "CHR 0x00 \<notin> set p" and wf: "well_formed fm vals r" for p
  proof (cases p)
    case Nil
    with Cons x wf show ?thesis by simp
  next
    case (Cons c q)
    show ?thesis
    proof (cases q)
      case Nil
      with \<open>p = c # q\<close> Cons.prems(2) x
      have "c = CHR ''O''"
        and "starts_with [CHR 0x00] (render escape_open escape_close (replacement fm vals) r)"
        by (simp_all add: starts_with_Cons)
      with first_marker_render [OF wf] Nil \<open>p = c # q\<close> x show ?thesis
        by (auto simp: starts_with_Cons)
    next
      case (Cons d q')
      with \<open>p = c # q\<close> Cons.prems(2) x nul show ?thesis
        by (simp add: starts_with_Cons)
    qed
  qed
  show ?case
  proof (cases x)
    case (Lit s)
    with Cons.prems(1) plain_set [of s] show ?thesis
      by (intro piece [of s]) simp_all
  next
    case EscOpen
    with Cons.prems(2) show ?thesis
      by (simp add: starts_with_Cons escape_open_def)
  next
    case EscClose
    with Cons.prems(2) show ?thesis
      by (simp add: starts_with_Cons escape_close_def)
  next
    case (Hole name fmt)
    with Cons.prems(1) show ?thesis
      by (intro piece [of "replacement fm vals name fmt"]) simp_all
  qed
qed

lemma restore_open_past_close:
  assumes "\<not> starts_with [CHR ''O'', CHR 0x00] R"
  shows "replace_all escape_open rep (escape_close @ R) = escape_close @ replace_all escape_open rep R"
proof -
  have ne: "escape_open \<noteq> []"
    by (simp add: escape_open_def)
  have no3: "take (length escape_open) (CHR 0x00 # R) \<noteq> escape_open"
    using assms by (auto simp: escape_open_def starts_with_def)
  have no2: "take (length escape_open) (CHR ''C'' # CHR 0x00 # R) \<noteq> escape_open"
    and no1: "take (length escape_open) (CHR 0x00 # CHR ''C'' # CHR 0x00 # R) \<noteq> escape_open"
    by (simp_all add: escape_open_def)
  show ?thesis
    by (simp add: escape_close_def replace_all_miss [OF ne no1] replace_all_miss [OF ne no2]
        replace_all_miss [OF ne no3])
qed

lemma restore_open_render:
  assumes "well_formed fm vals segs"
  shows "replace_all escape_open ''{'' (render escape_open escape_close (replacement fm vals) segs)
           = render ''{'' escape_close (replacement fm vals) segs"
  using assms
proof (induction segs)
  case Nil
  show ?case by (simp add: replace_all_Nil)
next
  case (Cons x r)
  show ?case
  proof (cases x)
    case (Lit s)
    with Cons show ?thesis
      using replace_all_skip [of escape_open s] by (auto simp: escape_open_def dest: plain_set)
  next
    case EscOpen
    with Cons show ?thesis
      using replace_all_hit [of escape_open] by (simp add: escape_open_def)
  next
    case EscClose
    with Cons.prems have wf: "well_formed fm vals r"
      and no: "\<not> starts_with ''O{'' (render ''{'' ''}'' (replacement fm vals) r)"
              "\<not> starts_with ''O}'' (render ''{'' ''}'' (replacement fm vals) r)"
      by (simp_all add: output_text_def)
    from lone_O_render [OF wf] no
    have "\<not> starts_with [CHR ''O'', CHR 0x00]
              (render escape_open escape_close (replacement fm vals) r)"
      by blast
    from restore_open_past_close [OF this] EscClose Cons.IH [OF wf] show ?thesis by simp
  next
    case (Hole name fmt)
    with Cons show ?thesis
      using replace_all_skip [of escape_open "replacement fm vals name fmt"]
      by (simp add: escape_open_def)
  qed
qed

lemma restore_close_render:
  assumes "well_formed fm vals segs"
  shows "replace_all escape_close ''}'' (render ''{'' escape_close (replacement fm vals) segs)
           = render ''{'' ''}'' (replacement fm vals) segs"
  using assms
proof (induction segs)
  case Nil
  show ?case by (simp add: replace_all_Nil)
next
  case (Cons x r)
  show ?case
  proof (cases x)
    case (Lit s)
    with Cons show ?thesis
      using replace_all_skip [of escape_close s] by (auto simp: escape_close_def dest: plain_set)
  next
    case EscOpen
    with Cons show ?thesis
      using replace_all_skip [of escape_close "''{''"] by (simp add: escape_close_def)
  next
    case EscClose
    with Cons show ?thesis
      using replace_all_hit [of escape_close] by (simp add: escape_close_def)
  next
    case (Hole name fmt)
    with Cons show ?thesis
      using replace_all_skip [of escape_close "replacement fm vals name fmt"]
      by (simp add: escape_close_def)
  qed
qed

lemma interpolate_render:
  assumes "well_formed fm vals segs"
  shows "interpolate fm (template_text segs) vals = output_text fm vals segs"
  unfolding interpolate_def Let_def template_text_def output_text_def
    protect_open_render [OF assms] protect_close_render [OF assms] substitute_render [OF assms]
    restore_open_render [OF assms] restore_close_render [OF assms] ..


lemma render_append: "render a b h (xs @ ys) = render a b h xs @ render a b h ys"
proof (induction xs)
  case Nil
  show ?case by simp
next
  case (Cons x xs)
  then show ?case by (cases x) simp_all
qed

text \<open>
  Claim C8, amended. \<^verbatim>\<open>interpolate("{{x}}", {x: "v"})\<close> is \<^verbatim>\<open>"{x}"\<close>. In general, for
  every well-formed sequence of plain text, doubled braces and placeholders, every
  formatter registry and every value object: the result of \<^verbatim>\<open>interpolate\<close> on the
  template is the sequence with each doubled brace as a single brace, the plain text as
  it is, each placeholder whose name is a property replaced by its formatted value, and
  each other placeholder as written. So text between doubled braces comes out between
  single braces and is not substituted, also when it names a value that is present.
\<close>

theorem interpolate_well_formed:
  "interpolate fm ''{{x}}'' [''x'' \<mapsto> Text ''v''] = ''{x}''
   \<and> (\<forall>vals segs. well_formed fm vals segs
         \<longrightarrow> interpolate fm (template_text segs) vals = output_text fm vals segs)
   \<and> (\<forall>vals pre s post. well_formed fm vals (pre @ EscOpen # Lit s # EscClose # post)
         \<longrightarrow> interpolate fm (template_text pre @ ''{{'' @ s @ ''}}'' @ template_text post) vals
               = output_text fm vals pre @ ''{'' @ s @ ''}'' @ output_text fm vals post)"
proof -
  have wf: "well_formed fm [''x'' \<mapsto> Text ''v''] [EscOpen, Lit ''x'', EscClose]"
    by (simp add: plain_def output_text_def starts_with_def)
  have one: "interpolate fm ''{{x}}'' [''x'' \<mapsto> Text ''v''] = ''{x}''"
    using interpolate_render [OF wf] by (simp add: template_text_def output_text_def)
  have pair: "interpolate fm (template_text pre @ ''{{'' @ s @ ''}}'' @ template_text post) vals
               = output_text fm vals pre @ ''{'' @ s @ ''}'' @ output_text fm vals post"
    if "well_formed fm vals (pre @ EscOpen # Lit s # EscClose # post)" for vals pre s post
    using interpolate_render [OF that]
    by (simp add: template_text_def output_text_def render_append)
  from one pair interpolate_render show ?thesis by blast
qed

theorem interpolate_well_formed_witness:
  "well_formed no_formatters [''x'' \<mapsto> Text ''v''] demo_segments
   \<and> template_text demo_segments = ''{{x}}={x}''
   \<and> has_property ''x'' [''x'' \<mapsto> Text ''v'']
   \<and> interpolate no_formatters ''{{x}}={x}'' [''x'' \<mapsto> Text ''v''] = ''{x}=v''"
proof -
  have hp: "has_property ''x'' [''x'' \<mapsto> Text ''v'']"
    by (simp add: has_property_def)
  have rp: "replacement no_formatters [''x'' \<mapsto> Text ''v''] ''x'' None = ''v''"
    by (simp add: replacement_def hp formatValue_def no_formatters_def get_property_def)
  have id: "is_identifier ''x''"
    by (simp add: is_identifier_def is_ident_start_def is_ident_char_def is_letter_def
        lower_letters_def)
  have wf: "well_formed no_formatters [''x'' \<mapsto> Text ''v''] demo_segments"
    by (simp add: demo_segments_def plain_def output_text_def template_text_def starts_with_def
        spec_ok_def rp id)
  have tt: "template_text demo_segments = ''{{x}}={x}''"
    by (simp add: demo_segments_def template_text_def placeholder_text_def)
  have ot: "output_text no_formatters [''x'' \<mapsto> Text ''v''] demo_segments = ''{x}=v''"
    by (simp add: demo_segments_def output_text_def rp)
  from interpolate_well_formed [of no_formatters] wf
  have "interpolate no_formatters (template_text demo_segments) [''x'' \<mapsto> Text ''v'']
          = output_text no_formatters [''x'' \<mapsto> Text ''v''] demo_segments"
    by blast
  with wf tt hp ot show ?thesis by simp
qed

text \<open>
  Claim C8 as stated, for every template, fails: doubled braces inside the format
  specification of a placeholder are part of the specification, and nothing of them is
  left in the output.
\<close>

theorem interpolate_escape_in_format_spec:
  "interpolate no_formatters ''{a,{{x}}}'' [''a'' \<mapsto> Text ''A'', ''x'' \<mapsto> Text ''v''] = ''A''"
  by code_simp

text \<open>
  A capital O between a closing doubled brace and the next doubled brace is read as the
  mark of an opening one; the amended claim leaves such templates out.
\<close>

lemma interpolate_lone_O:
  "interpolate no_formatters ''{{a}}O{{b}}'' Map.empty
     = ''{a'' @ [CHR 0x00] @ ''C{O'' @ [CHR 0x00] @ ''b}''"
  by code_simp

section \<open>Methods other than GET, HEAD and DELETE\<close>




end
